theory Spec2Isabelle
  imports Complex_Main "HOL-Library.Sublist" "HOL-Library.Word"
begin

section \<open>Data model\<close>

text \<open>
  The embedding follows \<^verbatim>\<open>src/app/core/mixer.py\<close>. Floating-point numbers are
  idealised as the reals and complex floating-point numbers as the complex numbers, with
  three exceptions where the difference shows in what a call returns: the overflow of
  \<^verbatim>\<open>float(sigma) ** 2\<close>, which Python raises as \<^verbatim>\<open>OverflowError\<close>; the
  rounding inside \<^verbatim>\<open>cv2.normalize\<close>, whose result is cut to an integer; and the
  transforms of \<^verbatim>\<open>np.fft\<close>, which are library code outside the repository and are
  a parameter of the model, the exact transforms being one instance. A two-dimensional
  array carries its shape explicitly, as a NumPy array does, so that a zero-sized array
  still knows its width.
\<close>

datatype 'a ndarray = NDArray (nrows: nat) (ncols: nat) (rows: "'a list list")

definition wf_nd :: "'a ndarray \<Rightarrow> bool" where
  "wf_nd a = (length (rows a) = nrows a \<and> list_all (\<lambda>row. length row = ncols a) (rows a))"

definition nd_at :: "'a ndarray \<Rightarrow> nat \<Rightarrow> nat \<Rightarrow> 'a" where
  "nd_at a r c = rows a ! r ! c"

definition tabulate2 :: "nat \<Rightarrow> nat \<Rightarrow> (nat \<Rightarrow> nat \<Rightarrow> 'a) \<Rightarrow> 'a ndarray" where
  "tabulate2 h w f = NDArray h w (map (\<lambda>r. map (\<lambda>c. f r c) [0..<w]) [0..<h])"

definition map_nd :: "('a \<Rightarrow> 'b) \<Rightarrow> 'a ndarray \<Rightarrow> 'b ndarray" where
  "map_nd f a = NDArray (nrows a) (ncols a) (map (map f) (rows a))"

text \<open>An elementwise binary operation on two arrays of one shape.\<close>

definition map2_nd :: "('a \<Rightarrow> 'b \<Rightarrow> 'c) \<Rightarrow> 'a ndarray \<Rightarrow> 'b ndarray \<Rightarrow> 'c ndarray" where
  "map2_nd f a b = NDArray (nrows a) (ncols a) (map2 (map2 f) (rows a) (rows b))"

text \<open>\<^verbatim>\<open>np.zeros((h, w))\<close>.\<close>

definition np_zeros :: "nat \<Rightarrow> nat \<Rightarrow> ('a::zero) ndarray" where
  "np_zeros h w = tabulate2 h w (\<lambda>r c. 0)"

text \<open>The exceptions the source can raise.\<close>

datatype error = IndexError | ValueError | UnboundLocalError | OverflowError

text \<open>Python's \<^verbatim>\<open>xs[i]\<close> for a non-negative index.\<close>

definition py_get :: "'a list \<Rightarrow> nat \<Rightarrow> error + 'a" where
  "py_get xs i = (if i < length xs then Inr (xs ! i) else Inl IndexError)"

text \<open>
  The \<^verbatim>\<open>Mixer\<close> object: the region mode and the two references to output widgets
  (a widget reference is an opaque identifier here).
\<close>

record mixer =
  region_mode :: string
  output_label_1 :: "nat option"
  output_label_2 :: "nat option"

definition mixer_init :: mixer where
  "mixer_init = \<lparr>region_mode = ''None'', output_label_1 = None, output_label_2 = None\<rparr>"

section \<open>Double precision\<close>

text \<open>
  \<^verbatim>\<open>DBL_EPSILON\<close> is \<open>1 / 2 ^ 52\<close>. A real of magnitude \<open>2 ^ 1024 - 2 ^ 970\<close> or more
  rounds to infinity: that bound is half a unit in the last place above the largest double.
\<close>

definition DBL_EPSILON :: real where
  "DBL_EPSILON = 1 / 2 ^ 52"

definition DBL_ROUNDS_TO_INF :: real where
  "DBL_ROUNDS_TO_INF = 2 ^ 1024 - 2 ^ 970"

text \<open>
  Python's \<^verbatim>\<open>x ** 2\<close> on a float: the C library computes the power, and Python
  raises \<^verbatim>\<open>OverflowError\<close> when the result is infinite.
\<close>

definition py_float_sq :: "real \<Rightarrow> error + real" where
  "py_float_sq x = (if DBL_ROUNDS_TO_INF \<le> x ^ 2 then Inl OverflowError else Inr (x ^ 2))"

text \<open>
  Rounding a real to the nearest double, ties to the even significand: a positive \<open>x\<close>
  with \<open>2 ^ L \<le> x < 2 ^ (L + 1)\<close> is rounded to a multiple of \<open>2 ^ (L - 52)\<close>, and to a
  multiple of \<open>2 ^ (- 1074)\<close> when \<open>L\<close> is below \<open>- 1022\<close> (the subnormal doubles).
  A real that rounds to infinity is rounded like the others: the normalisation below never
  meets one when the magnitudes are doubles.
\<close>

definition round_even :: "real \<Rightarrow> int" where
  "round_even y =
     (let f = \<lfloor>y\<rfloor>; d = y - of_int f
      in if d < 1 / 2 then f else if 1 / 2 < d then f + 1 else if even f then f else f + 1)"

definition fl_pos :: "real \<Rightarrow> real" where
  "fl_pos x =
     (let e = max \<lfloor>log 2 x\<rfloor> (- 1022) - 52
      in of_int (round_even (x / 2 powr of_int e)) * 2 powr of_int e)"

definition fl :: "real \<Rightarrow> real" where
  "fl x = (if x = 0 then 0 else if 0 < x then fl_pos x else - fl_pos (- x))"

section \<open>The region-mode setter\<close>

text \<open>Python's \<^verbatim>\<open>sub in s\<close> on strings: a left-to-right search for \<open>sub\<close>.\<close>

fun str_contains :: "string \<Rightarrow> string \<Rightarrow> bool" where
  "str_contains sub [] = (sub = [])"
| "str_contains sub (c # cs) = (prefix sub (c # cs) \<or> str_contains sub cs)"

definition set_region_mode :: "string \<Rightarrow> mixer \<Rightarrow> mixer" where
  "set_region_mode mode self =
     (if str_contains ''Inner'' mode then self\<lparr>region_mode := ''Inner''\<rparr>
      else if str_contains ''Outer'' mode then self\<lparr>region_mode := ''Outer''\<rparr>
      else self\<lparr>region_mode := ''None''\<rparr>)"

definition set_output_labels :: "nat option \<Rightarrow> nat option \<Rightarrow> mixer \<Rightarrow> mixer" where
  "set_output_labels label1 label2 self =
     self\<lparr>output_label_1 := label1, output_label_2 := label2\<rparr>"

section \<open>The Gaussian mask\<close>

text \<open>\<^verbatim>\<open>np.arange(n) - center\<close>, an integer vector.\<close>

definition arange_minus :: "nat \<Rightarrow> nat \<Rightarrow> int list" where
  "arange_minus n center = map (\<lambda>i. int i - int center) [0..<n]"

text \<open>\<^verbatim>\<open>np.meshgrid(x, y)\<close>: both grids have \<open>length y\<close> rows and \<open>length x\<close> columns.\<close>

definition meshgrid :: "'a list \<Rightarrow> 'a list \<Rightarrow> 'a ndarray \<times> 'a ndarray" where
  "meshgrid x y =
     (NDArray (length y) (length x) (map (\<lambda>v. x) y),
      NDArray (length y) (length x) (map (\<lambda>v. map (\<lambda>u. v) x) y))"

definition create_gaussian_mask :: "nat \<Rightarrow> nat \<Rightarrow> real \<Rightarrow> error + real ndarray" where
  "create_gaussian_mask height width sigma =
     (let center_x = width div 2;
          center_y = height div 2;
          x = arange_minus width center_x;
          y = arange_minus height center_y;
          (X, Y) = meshgrid x y;
          distance_sq = map2_nd (+) (map_nd (\<lambda>v. v ^ 2) X) (map_nd (\<lambda>v. v ^ 2) Y)
      in case py_float_sq sigma of
           Inl e \<Rightarrow> Inl e
         | Inr sigma_sq \<Rightarrow>
             Inr (map_nd (\<lambda>d. exp (- real_of_int d / (2 * (sigma_sq + 1 / 1000000))))
                    distance_sq))"

section \<open>Broadcasting and the region mask\<close>

text \<open>
  NumPy's broadcasting of two shapes: along each axis the lengths are equal, or one of
  them is 1 and is stretched; anything else raises \<^verbatim>\<open>ValueError\<close>.
\<close>

definition bc_dim :: "nat \<Rightarrow> nat \<Rightarrow> nat option" where
  "bc_dim a b = (if a = b then Some a else if a = 1 then Some b else if b = 1 then Some a else None)"

definition bc_index :: "nat \<Rightarrow> nat \<Rightarrow> nat" where
  "bc_index n i = (if n = 1 then 0 else i)"

definition bc_at :: "'a ndarray \<Rightarrow> nat \<Rightarrow> nat \<Rightarrow> 'a" where
  "bc_at a r c = nd_at a (bc_index (nrows a) r) (bc_index (ncols a) c)"

definition broadcast2 :: "('a \<Rightarrow> 'b \<Rightarrow> 'c) \<Rightarrow> 'a ndarray \<Rightarrow> 'b ndarray \<Rightarrow> error + 'c ndarray" where
  "broadcast2 f a b =
     (case (bc_dim (nrows a) (nrows b), bc_dim (ncols a) (ncols b)) of
        (Some h, Some w) \<Rightarrow> Inr (tabulate2 h w (\<lambda>r c. f (bc_at a r c) (bc_at b r c)))
      | _ \<Rightarrow> Inl ValueError)"

text \<open>\<^verbatim>\<open>ft_data * mask\<close>: a complex array times a real array.\<close>

definition mul_mask :: "complex ndarray \<Rightarrow> real ndarray \<Rightarrow> error + complex ndarray" where
  "mul_mask ft_data mask_arr = broadcast2 (\<lambda>z m. z * complex_of_real m) ft_data mask_arr"

definition apply_region_mask ::
  "mixer \<Rightarrow> complex ndarray \<Rightarrow> real ndarray \<Rightarrow> error + complex ndarray" where
  "apply_region_mask self ft_data gaussian_mask =
     (if region_mode self = ''None'' then Inr ft_data
      else if region_mode self = ''Inner'' then mul_mask ft_data gaussian_mask
      else if region_mode self = ''Outer''
        then mul_mask ft_data (map_nd (\<lambda>g. 1 - g) gaussian_mask)
      else Inl UnboundLocalError)"

section \<open>Fourier transforms\<close>

text \<open>
  In exact arithmetic \<^verbatim>\<open>np.fft.fft\<close> along one axis of length \<open>N\<close> is the discrete Fourier transform
  \<open>X[k] = \<Sum>n<N. x[n] * exp (- 2 pi i k n / N)\<close>, and \<^verbatim>\<open>np.fft.ifft\<close> its inverse
  \<open>x[n] = (\<Sum>k<N. X[k] * exp (2 pi i k n / N)) / N\<close>; an axis of length 0 raises
  \<^verbatim>\<open>ValueError\<close>. The two-dimensional transforms work on the last axis first.
\<close>

definition twiddle :: "nat \<Rightarrow> nat \<Rightarrow> nat \<Rightarrow> complex" where
  "twiddle N k n = cis (2 * pi * real k * real n / real N)"

definition fft_last_axis :: "complex ndarray \<Rightarrow> error + complex ndarray" where
  "fft_last_axis a =
     (if ncols a < 1 then Inl ValueError
      else Inr (tabulate2 (nrows a) (ncols a)
        (\<lambda>r k. \<Sum>n\<leftarrow>[0..<ncols a]. nd_at a r n * cnj (twiddle (ncols a) k n))))"

definition fft_first_axis :: "complex ndarray \<Rightarrow> error + complex ndarray" where
  "fft_first_axis a =
     (if nrows a < 1 then Inl ValueError
      else Inr (tabulate2 (nrows a) (ncols a)
        (\<lambda>k c. \<Sum>n\<leftarrow>[0..<nrows a]. nd_at a n c * cnj (twiddle (nrows a) k n))))"

definition ifft_last_axis :: "complex ndarray \<Rightarrow> error + complex ndarray" where
  "ifft_last_axis a =
     (if ncols a < 1 then Inl ValueError
      else Inr (tabulate2 (nrows a) (ncols a)
        (\<lambda>r n. (\<Sum>k\<leftarrow>[0..<ncols a]. nd_at a r k * twiddle (ncols a) k n) / of_nat (ncols a))))"

definition ifft_first_axis :: "complex ndarray \<Rightarrow> error + complex ndarray" where
  "ifft_first_axis a =
     (if nrows a < 1 then Inl ValueError
      else Inr (tabulate2 (nrows a) (ncols a)
        (\<lambda>n c. (\<Sum>k\<leftarrow>[0..<nrows a]. nd_at a k c * twiddle (nrows a) k n) / of_nat (nrows a))))"

text \<open>\<^verbatim>\<open>np.fft.fft2\<close> of a real image and \<^verbatim>\<open>np.fft.ifft2\<close>, in exact arithmetic.\<close>

definition fft2 :: "real ndarray \<Rightarrow> error + complex ndarray" where
  "fft2 a =
     (case fft_last_axis (map_nd complex_of_real a) of
        Inl e \<Rightarrow> Inl e
      | Inr b \<Rightarrow> fft_first_axis b)"

definition ifft2 :: "complex ndarray \<Rightarrow> error + complex ndarray" where
  "ifft2 a =
     (case ifft_last_axis a of
        Inl e \<Rightarrow> Inl e
      | Inr b \<Rightarrow> ifft_first_axis b)"

text \<open>
  The transforms that a call uses. NumPy computes them in floating point, by an algorithm
  of its own, so their results are the exact ones only up to rounding; the model takes
  them as a parameter. \<open>exact_fft\<close> is the instance with the exact transforms; NumPy
  agrees with it where its arithmetic is exact, for instance on small integers along axes
  of length 1, 2 or 4.
\<close>

record fft_lib =
  lib_fft2 :: "real ndarray \<Rightarrow> error + complex ndarray"
  lib_ifft2 :: "complex ndarray \<Rightarrow> error + complex ndarray"

definition exact_fft :: fft_lib where
  "exact_fft = \<lparr>lib_fft2 = fft2, lib_ifft2 = ifft2\<rparr>"

text \<open>
  \<^verbatim>\<open>np.fft.fftshift\<close> rolls every axis of length \<open>n\<close> forward by \<open>n div 2\<close>, so entry
  \<open>i\<close> of the result is entry \<open>(i - n div 2) mod n\<close> of the argument;
  \<^verbatim>\<open>np.fft.ifftshift\<close> rolls back by the same amount.
\<close>

definition fftshift :: "'a ndarray \<Rightarrow> 'a ndarray" where
  "fftshift a =
     (let h = nrows a; w = ncols a
      in tabulate2 h w (\<lambda>r c. nd_at a ((r + (h - h div 2)) mod h) ((c + (w - w div 2)) mod w)))"

definition ifftshift :: "'a ndarray \<Rightarrow> 'a ndarray" where
  "ifftshift a =
     (let h = nrows a; w = ncols a
      in tabulate2 h w (\<lambda>r c. nd_at a ((r + h div 2) mod h) ((c + w div 2) mod w)))"

section \<open>Normalisation\<close>

text \<open>The smallest and the largest entry of a non-empty array.\<close>

definition nd_min :: "real ndarray \<Rightarrow> real" where
  "nd_min a = (case concat (rows a) of [] \<Rightarrow> 0 | x # xs \<Rightarrow> fold min xs x)"

definition nd_max :: "real ndarray \<Rightarrow> real" where
  "nd_max a = (case concat (rows a) of [] \<Rightarrow> 0 | x # xs \<Rightarrow> fold max xs x)"

text \<open>
  \<^verbatim>\<open>cv2.normalize(src, None, alpha, beta, cv2.NORM_MINMAX)\<close>: OpenCV computes
  \<open>scale = (dmax - dmin) * (if smax - smin > DBL_EPSILON then 1 / (smax - smin) else 0)\<close>
  and \<open>shift = dmin - smin * scale\<close>, and returns \<open>src * scale + shift\<close>, every operation
  in double precision and rounded, the product before the sum, as the expressions of the
  OpenCV source read.
\<close>

definition cv_normalize_minmax :: "real \<Rightarrow> real \<Rightarrow> real ndarray \<Rightarrow> real ndarray" where
  "cv_normalize_minmax alpha beta src =
     (let smin = nd_min src;
          smax = nd_max src;
          dmin = min alpha beta;
          dmax = max alpha beta;
          scale = fl (fl (dmax - dmin)
                      * (if fl (smax - smin) > DBL_EPSILON then fl (1 / fl (smax - smin)) else 0));
          shift = fl (dmin - fl (smin * scale))
      in map_nd (\<lambda>v. fl (fl (v * scale) + shift)) src)"

text \<open>
  \<^verbatim>\<open>.astype(np.uint8)\<close> on a float: the fraction is cut off (rounding towards zero)
  and the integer is stored in 8 bits.
\<close>

definition astype_uint8 :: "real \<Rightarrow> 8 word" where
  "astype_uint8 v = word_of_int (if 0 \<le> v then \<lfloor>v\<rfloor> else \<lceil>v\<rceil>)"

section \<open>Mixing\<close>

text \<open>
  \<^verbatim>\<open>combined_ft += weighted\<close>: the in-place sum keeps the shape of \<open>combined_ft\<close>;
  the operand is broadcast to it or \<^verbatim>\<open>ValueError\<close> is raised.
\<close>

definition iadd_nd :: "complex ndarray \<Rightarrow> complex ndarray \<Rightarrow> error + complex ndarray" where
  "iadd_nd combined_ft x =
     (if (nrows x = nrows combined_ft \<or> nrows x = 1) \<and> (ncols x = ncols combined_ft \<or> ncols x = 1)
      then Inr (tabulate2 (nrows combined_ft) (ncols combined_ft)
                  (\<lambda>r c. nd_at combined_ft r c + bc_at x r c))
      else Inl ValueError)"

text \<open>Step 2 of the loop body: extract the selected component, weight it and accumulate.\<close>

definition add_component ::
  "string \<Rightarrow> real \<Rightarrow> complex ndarray \<Rightarrow> complex ndarray \<Rightarrow> error + complex ndarray" where
  "add_component selected weight ft_image_masked combined_ft =
     (if selected \<in> set [''FT Magnitude'', ''FT Phase''] then
        (let magnitude = map_nd cmod ft_image_masked;
             phase = map_nd Arg ft_image_masked
         in if selected = ''FT Magnitude'' then
              iadd_nd combined_ft
                (map2_nd (\<lambda>m p. complex_of_real (weight * m) * exp (\<i> * complex_of_real p))
                   magnitude phase)
            else
              iadd_nd combined_ft
                (map_nd (\<lambda>p. complex_of_real weight * exp (\<i> * complex_of_real p)) phase))
      else if selected \<in> set [''FT Real'', ''FT Imaginary''] then
        (let real_part = map_nd Re ft_image_masked;
             imag_part = map_nd Im ft_image_masked
         in if selected = ''FT Real'' then
              iadd_nd combined_ft
                (map_nd (\<lambda>x. complex_of_real weight * (complex_of_real x + 0 * \<i>)) real_part)
            else
              iadd_nd combined_ft
                (map_nd (\<lambda>y. complex_of_real weight * (0 + \<i> * complex_of_real y)) imag_part))
      else Inr combined_ft)"

text \<open>One pass of the loop body, for slot \<open>i\<close>.\<close>

definition mix_slot ::
  "fft_lib \<Rightarrow> mixer \<Rightarrow> real ndarray option list \<Rightarrow> real list \<Rightarrow> string list \<Rightarrow> real ndarray \<Rightarrow>
   nat \<Rightarrow> complex ndarray \<Rightarrow> error + complex ndarray" where
  "mix_slot lib self images weights component_selections gaussian_mask i combined_ft =
     (case py_get images i of
        Inl e \<Rightarrow> Inl e
      | Inr None \<Rightarrow> Inr combined_ft
      | Inr (Some img) \<Rightarrow>
          (case py_get weights i of
             Inl e \<Rightarrow> Inl e
           | Inr weight \<Rightarrow>
               if weight = 0 then Inr combined_ft
               else
                 (case lib_fft2 lib img of
                    Inl e \<Rightarrow> Inl e
                  | Inr ft_image \<Rightarrow>
                      (case apply_region_mask self (fftshift ft_image) gaussian_mask of
                         Inl e \<Rightarrow> Inl e
                       | Inr ft_image_masked \<Rightarrow>
                           (case py_get component_selections i of
                              Inl e \<Rightarrow> Inl e
                            | Inr selected \<Rightarrow>
                                add_component selected weight ft_image_masked combined_ft)))))"

text \<open>The loop \<^verbatim>\<open>for i in range(4)\<close>, over the list of its indices.\<close>

fun mix_slots ::
  "fft_lib \<Rightarrow> mixer \<Rightarrow> real ndarray option list \<Rightarrow> real list \<Rightarrow> string list \<Rightarrow> real ndarray \<Rightarrow>
   nat list \<Rightarrow> complex ndarray \<Rightarrow> error + complex ndarray" where
  "mix_slots lib self images weights component_selections gaussian_mask [] combined_ft =
     Inr combined_ft"
| "mix_slots lib self images weights component_selections gaussian_mask (i # is) combined_ft =
     (case mix_slot lib self images weights component_selections gaussian_mask i combined_ft of
        Inl e \<Rightarrow> Inl e
      | Inr combined_ft' \<Rightarrow>
          mix_slots lib self images weights component_selections gaussian_mask is combined_ft')"

text \<open>Steps 3 and 4: the magnitude of the inverse transform, and the normalised image.\<close>

definition magnitude_image :: "fft_lib \<Rightarrow> complex ndarray \<Rightarrow> error + real ndarray" where
  "magnitude_image lib combined_ft =
     (case lib_ifft2 lib (ifftshift combined_ft) of
        Inl e \<Rightarrow> Inl e
      | Inr mixed_image_complex \<Rightarrow> Inr (map_nd cmod mixed_image_complex))"

definition normalize_uint8 :: "real ndarray \<Rightarrow> 8 word ndarray" where
  "normalize_uint8 mixed_image = map_nd astype_uint8 (cv_normalize_minmax 0 255 mixed_image)"

definition mix_images ::
  "fft_lib \<Rightarrow> mixer \<Rightarrow> real ndarray option list \<Rightarrow> real list \<Rightarrow> string list \<Rightarrow> real list \<Rightarrow>
   nat option \<Rightarrow> nat option \<Rightarrow> error + 8 word ndarray" where
  "mix_images lib self images weights component_selections selector_region min_height min_width =
     (case (min_width, min_height) of
        (Some width, Some height) \<Rightarrow>
          (case py_get selector_region 2 of
             Inl e \<Rightarrow> Inl e
           | Inr sigma \<Rightarrow>
               (case create_gaussian_mask height width sigma of
                  Inl e \<Rightarrow> Inl e
                | Inr gaussian_mask \<Rightarrow>
                    (case mix_slots lib self images weights component_selections
                            gaussian_mask [0..<4] (np_zeros height width) of
                       Inl e \<Rightarrow> Inl e
                     | Inr combined_ft \<Rightarrow>
                         (case magnitude_image lib combined_ft of
                            Inl e \<Rightarrow> Inl e
                          | Inr mixed_image \<Rightarrow> Inr (normalize_uint8 mixed_image)))))
      | _ \<Rightarrow> Inr (np_zeros 100 100))"

section \<open>Well-formed calls\<close>

text \<open>
  Predicates used to state properties of calls; they are not part of the source. An array
  can be broadcast to the shape \<open>H\<close> by \<open>W\<close> when each of its dimensions is the target's
  or 1. A call is well formed when it has four slots, a region mode that the setter can
  produce, selectors among the four component names, and rectangular non-empty images.
\<close>

definition broadcastable_to :: "nat \<Rightarrow> nat \<Rightarrow> 'a ndarray \<Rightarrow> bool" where
  "broadcastable_to H W a = ((nrows a = H \<or> nrows a = 1) \<and> (ncols a = W \<or> ncols a = 1))"

definition slots_well_formed ::
  "mixer \<Rightarrow> real ndarray option list \<Rightarrow> real list \<Rightarrow> string list \<Rightarrow> bool" where
  "slots_well_formed self images weights component_selections =
     (length images = 4 \<and> length weights = 4 \<and> length component_selections = 4
      \<and> region_mode self \<in> {''None'', ''Inner'', ''Outer''}
      \<and> (\<forall>i<4. component_selections ! i \<in> {''FT Magnitude'', ''FT Phase'', ''FT Real'', ''FT Imaginary''})
      \<and> (\<forall>i<4. \<forall>img. images ! i = Some img \<longrightarrow> wf_nd img \<and> 0 < nrows img \<and> 0 < ncols img))"

text \<open>
  What every call of NumPy's transforms does, whatever the rounding: on a non-empty
  array it returns an array of the same shape, and on an array with an axis of length 0 it
  raises \<^verbatim>\<open>ValueError\<close>.
\<close>

definition transforms_keep_shape :: "fft_lib \<Rightarrow> bool" where
  "transforms_keep_shape lib =
     ((\<forall>a. wf_nd a \<longrightarrow>
          (if 0 < nrows a \<and> 0 < ncols a
           then \<exists>F. lib_fft2 lib a = Inr F \<and> wf_nd F \<and> nrows F = nrows a \<and> ncols F = ncols a
           else lib_fft2 lib a = Inl ValueError))
      \<and> (\<forall>a. wf_nd a \<longrightarrow>
          (if 0 < nrows a \<and> 0 < ncols a
           then \<exists>F. lib_ifft2 lib a = Inr F \<and> wf_nd F \<and> nrows F = nrows a \<and> ncols F = ncols a
           else lib_ifft2 lib a = Inl ValueError)))"

text \<open>Two complex arrays of one shape that differ by at most \<open>eps\<close> in every entry.\<close>

definition close_to :: "real \<Rightarrow> complex ndarray \<Rightarrow> complex ndarray \<Rightarrow> bool" where
  "close_to eps a b =
     (nrows a = nrows b \<and> ncols a = ncols b
      \<and> (\<forall>r<nrows b. \<forall>c<ncols b. cmod (nd_at a r c - nd_at b r c) \<le> eps))"

section \<open>Basic facts about arrays\<close>

lemma nrows_tabulate2 [simp]: "nrows (tabulate2 h w f) = h"
  by (simp add: tabulate2_def)

lemma ncols_tabulate2 [simp]: "ncols (tabulate2 h w f) = w"
  by (simp add: tabulate2_def)

lemma nd_at_tabulate2 [simp]: "r < h \<Longrightarrow> c < w \<Longrightarrow> nd_at (tabulate2 h w f) r c = f r c"
  by (simp add: tabulate2_def nd_at_def)

lemma wf_tabulate2 [simp]: "wf_nd (tabulate2 h w f)"
  by (simp add: tabulate2_def wf_nd_def list_all_iff)

lemma nrows_map_nd [simp]: "nrows (map_nd f a) = nrows a"
  by (simp add: map_nd_def)

lemma ncols_map_nd [simp]: "ncols (map_nd f a) = ncols a"
  by (simp add: map_nd_def)

lemma wf_map_nd [simp]: "wf_nd a \<Longrightarrow> wf_nd (map_nd f a)"
  by (simp add: map_nd_def wf_nd_def list_all_iff)

lemma nd_at_map_nd [simp]:
  "wf_nd a \<Longrightarrow> r < nrows a \<Longrightarrow> c < ncols a \<Longrightarrow> nd_at (map_nd f a) r c = f (nd_at a r c)"
  by (simp add: map_nd_def wf_nd_def nd_at_def list_all_iff)

lemma nd_eqI:
  assumes "wf_nd a" "wf_nd b" "nrows a = nrows b" "ncols a = ncols b"
    and "\<And>r c. r < nrows a \<Longrightarrow> c < ncols a \<Longrightarrow> nd_at a r c = nd_at b r c"
  shows "a = b"
proof -
  have "rows a = rows b"
  proof (rule nth_equalityI)
    show "length (rows a) = length (rows b)"
      using assms by (simp add: wf_nd_def)
  next
    fix r assume r: "r < length (rows a)"
    then have ra: "r < nrows a" and rb: "r < length (rows b)"
      using assms by (simp_all add: wf_nd_def)
    have la: "length (rows a ! r) = ncols a"
      using assms(1) r by (simp add: wf_nd_def list_all_length)
    have lb: "length (rows b ! r) = ncols a"
      using assms(2,4) rb by (simp add: wf_nd_def list_all_length)
    show "rows a ! r = rows b ! r"
    proof (rule nth_equalityI)
      show "length (rows a ! r) = length (rows b ! r)" using la lb by simp
    next
      fix c assume "c < length (rows a ! r)"
      then have "c < ncols a" using la by simp
      from assms(5) [OF ra this] show "rows a ! r ! c = rows b ! r ! c"
        by (simp add: nd_at_def)
    qed
  qed
  with assms(3,4) show ?thesis
    by (cases a; cases b) simp
qed

lemma str_contains_sublist: "str_contains sub s = sublist sub s"
  by (induction s) (auto simp: sublist_Cons_right)

lemma str_contains_iff: "str_contains sub s \<longleftrightarrow> (\<exists>ps ss. s = ps @ sub @ ss)"
  by (simp add: str_contains_sublist sublist_def)

section \<open>Helper facts\<close>

subsection \<open>Rounding to double precision\<close>

lemma round_even_of_int [simp]: "round_even (of_int m) = m"
  by (simp add: round_even_def)

lemma round_even_bounds: "\<lfloor>y\<rfloor> \<le> round_even y" "round_even y \<le> \<lfloor>y\<rfloor> + 1"
  by (simp_all add: round_even_def Let_def)

lemma fl_zero [simp]: "fl 0 = 0"
  by (simp add: fl_def)

lemma fl_minus: "fl (- x) = - fl x"
  by (simp add: fl_def)

lemma floor_log2_bounds:
  assumes "0 < x"
  shows "2 powr of_int \<lfloor>log 2 x\<rfloor> \<le> x" "x < 2 powr of_int (\<lfloor>log 2 x\<rfloor> + 1)"
  using assms floor_log_eq_powr_iff [of x 2 "\<lfloor>log 2 x\<rfloor>"] by simp_all

lemma fl_pos_eq:
  assumes "0 < x" "2 powr of_int L \<le> x" "x < 2 powr of_int (L + 1)" "- 1022 \<le> L"
  shows "fl_pos x = of_int (round_even (x / 2 powr of_int (L - 52))) * 2 powr of_int (L - 52)"
proof -
  have "\<lfloor>log 2 x\<rfloor> = L"
    using assms floor_log_eq_powr_iff [of x 2 L] by simp
  then show ?thesis using assms(4) by (simp add: fl_pos_def)
qed

lemma fl_pos_subnormal:
  assumes "0 < x" "x < 2 powr of_int (- 1022)"
  shows "fl_pos x = of_int (round_even (x / 2 powr of_int (- 1074))) * 2 powr of_int (- 1074)"
proof -
  have "x < 2 powr of_int (\<lfloor>log 2 x\<rfloor> + 1) \<and> 2 powr of_int \<lfloor>log 2 x\<rfloor> \<le> x"
    using floor_log2_bounds [OF assms(1)] by simp
  then have "(2::real) powr of_int \<lfloor>log 2 x\<rfloor> < 2 powr of_int (- 1022)"
    using assms(2) by linarith
  then have "real_of_int \<lfloor>log 2 x\<rfloor> < real_of_int (- 1022)"
    by (rule powr_less_cancel) simp
  then have "\<lfloor>log 2 x\<rfloor> < - 1022"
    by (simp only: of_int_less_iff)
  then have "max \<lfloor>log 2 x\<rfloor> (- 1022) - 52 = - 1074" by simp
  then show ?thesis by (simp only: fl_pos_def Let_def)
qed

lemma fl_pos_0 [simp]: "fl_pos 0 = 0"
  by (simp add: fl_pos_def round_even_def)

lemma fl_pos_representable:
  fixes m e :: int
  assumes "0 \<le> m" "m \<le> 2 ^ 53" "2 ^ 52 \<le> m \<or> e = - 1074" "- 1074 \<le> e"
  shows "fl_pos (of_int m * 2 powr of_int e) = of_int m * 2 powr of_int e"
proof -
  let ?s = "(2::real) powr of_int e"
  have s: "0 < ?s" by simp
  consider "m = 0" | "0 < m" "m < 2 ^ 52" "e = - 1074" | "2 ^ 52 \<le> m" "m < 2 ^ 53" | "m = 2 ^ 53"
    using assms by linarith
  then show ?thesis
  proof cases
    case 1
    then show ?thesis by simp
  next
    case 2
    have mpos: "0 < (of_int m :: real)" using 2(1) by simp
    have xpos: "0 < of_int m * ?s" using mpos s by simp
    have mlt: "(of_int m :: real) < 2 ^ 52" using 2(2) by (simp flip: of_int_less_iff)
    have "(2::real) powr of_int (- 1022) = 2 ^ 52 * 2 powr of_int (- 1074)"
      by (simp add: powr_minus_divide flip: powr_realpow)
    then have b: "of_int m * ?s < 2 powr of_int (- 1022)"
      using mlt by (simp only: 2(3)) simp
    have "fl_pos (of_int m * ?s)
        = of_int (round_even (of_int m * ?s / 2 powr of_int (- 1074))) * 2 powr of_int (- 1074)"
      by (rule fl_pos_subnormal [OF xpos b])
    then show ?thesis by (simp add: 2(3))
  next
    case 3
    have mpos: "0 < (of_int m :: real)" using 3(1) by simp
    have xpos: "0 < of_int m * ?s" using mpos s by simp
    have lo: "2 powr of_int (e + 52) = 2 ^ 52 * ?s" by (simp add: powr_add)
    have hi: "2 powr of_int (e + 52 + 1) = 2 ^ 53 * ?s" by (simp add: powr_add)
    have mr: "(2::real) ^ 52 \<le> of_int m" using 3(1) by (simp flip: of_int_le_iff)
    have mlt: "(of_int m :: real) < 2 ^ 53" using 3(2) by (simp flip: of_int_less_iff)
    have a: "2 powr of_int (e + 52) \<le> of_int m * ?s"
      unfolding lo using mr s by simp
    have b: "of_int m * ?s < 2 powr of_int (e + 52 + 1)"
      unfolding hi using mlt s by simp
    have n: "- 1022 \<le> e + 52" using assms(4) by simp
    have "fl_pos (of_int m * ?s)
        = of_int (round_even (of_int m * ?s / 2 powr of_int (e + 52 - 52))) * 2 powr of_int (e + 52 - 52)"
      by (rule fl_pos_eq [OF xpos a b n])
    then show ?thesis by simp
  next
    case 4
    have mpos: "0 < (of_int m :: real)" using 4 by simp
    have xpos: "0 < of_int m * ?s" using mpos s by simp
    have hi2: "2 powr of_int (e + 53 + 1) = 2 ^ 54 * ?s" by (simp add: powr_add)
    have lo3: "2 powr of_int (e + 53) = 2 ^ 53 * ?s" by (simp add: powr_add)
    have a: "2 powr of_int (e + 53) \<le> of_int m * ?s"
      unfolding lo3 using 4 by simp
    have b: "of_int m * ?s < 2 powr of_int (e + 53 + 1)"
      unfolding hi2 using 4 s by simp
    have n: "- 1022 \<le> e + 53" using assms(4) by simp
    have sc: "2 powr of_int (e + 53 - 52) = 2 * ?s" by (simp add: powr_add)
    have "fl_pos (of_int m * ?s)
        = of_int (round_even (of_int m * ?s / 2 powr of_int (e + 53 - 52))) * 2 powr of_int (e + 53 - 52)"
      by (rule fl_pos_eq [OF xpos a b n])
    also have "of_int m * ?s / 2 powr of_int (e + 53 - 52) = of_int (2 ^ 52)"
      unfolding sc using 4 s by simp
    finally show ?thesis
      unfolding sc using 4 by (simp only: round_even_of_int) simp
  qed
qed

lemma fl_pos_form:
  assumes "0 < x"
  obtains m :: int and e :: int where
    "fl_pos x = of_int m * 2 powr of_int e" "0 \<le> m" "m \<le> 2 ^ 53"
    "2 ^ 52 \<le> m \<or> e = - 1074" "- 1074 \<le> e"
proof (cases "- 1022 \<le> \<lfloor>log 2 x\<rfloor>")
  case True
  define e where "e = \<lfloor>log 2 x\<rfloor> - 52"
  define y where "y = x / 2 powr of_int e"
  define m where "m = round_even y"
  have p: "(2::real) powr of_int e = 2 powr of_int \<lfloor>log 2 x\<rfloor> / 2 ^ 52"
    by (simp add: e_def powr_diff)
  have q: "(2::real) powr of_int (\<lfloor>log 2 x\<rfloor> + 1) = 2 * 2 powr of_int \<lfloor>log 2 x\<rfloor>"
    by (simp add: powr_add)
  have pos: "(0::real) < 2 powr of_int \<lfloor>log 2 x\<rfloor>" by simp
  have y1: "2 ^ 52 \<le> y"
    unfolding y_def using floor_log2_bounds(1) [OF assms(1)] pos by (simp add: p field_simps)
  have "x < 2 * 2 powr of_int \<lfloor>log 2 x\<rfloor>"
    using floor_log2_bounds(2) [OF assms(1)] by (simp only: q)
  then have y2: "y < 2 ^ 53"
    unfolding y_def using pos by (simp add: p field_simps)
  have f1: "(2::int) ^ 52 \<le> \<lfloor>y\<rfloor>" using y1 by (simp add: le_floor_iff)
  have f2: "\<lfloor>y\<rfloor> < (2::int) ^ 53" using y2 by (simp add: floor_less_iff)
  have m: "2 ^ 52 \<le> m" "m \<le> 2 ^ 53"
    unfolding m_def using round_even_bounds [of y] f1 f2 by linarith+
  have "max \<lfloor>log 2 x\<rfloor> (- 1022) - 52 = e" using True by (simp add: e_def)
  then have "fl_pos x = of_int m * 2 powr of_int e"
    by (simp only: fl_pos_def Let_def m_def y_def)
  moreover have "- 1074 \<le> e" unfolding e_def using True by linarith
  moreover have "0 \<le> m" using m(1) by simp
  ultimately show ?thesis using that m by blast
next
  case False
  define y where "y = x / 2 powr of_int (- 1074)"
  define m where "m = round_even y"
  have "\<lfloor>log 2 x\<rfloor> + 1 \<le> - 1022" using False by linarith
  then have "real_of_int (\<lfloor>log 2 x\<rfloor> + 1) \<le> real_of_int (- 1022)"
    by (simp only: of_int_le_iff)
  then have "(2::real) powr of_int (\<lfloor>log 2 x\<rfloor> + 1) \<le> 2 powr of_int (- 1022)"
    by (rule powr_mono) simp
  then have small: "x < 2 powr of_int (- 1022)"
    using floor_log2_bounds(2) [OF assms(1)] by linarith
  have r: "(2::real) powr of_int (- 1022) = 2 ^ 52 * 2 powr of_int (- 1074)"
    by (simp add: powr_minus_divide flip: powr_realpow)
  have y1: "0 < y" unfolding y_def using assms by simp
  have y2: "y < 2 ^ 52"
    unfolding y_def using small by (simp only: r) (simp add: field_simps)
  have f1: "0 \<le> \<lfloor>y\<rfloor>" using y1 by simp
  have f2: "\<lfloor>y\<rfloor> < (2::int) ^ 52" using y2 by (simp add: floor_less_iff)
  have m: "0 \<le> m" "m \<le> 2 ^ 52"
    unfolding m_def using round_even_bounds [of y] f1 f2 by linarith+
  have "fl_pos x = of_int m * 2 powr of_int (- 1074)"
    unfolding m_def y_def by (rule fl_pos_subnormal [OF assms small])
  moreover have "m \<le> 2 ^ 53" using m(2) by simp
  ultimately show ?thesis using that [of m "- 1074"] m(1) by simp
qed

lemma fl_pos_nonneg: "0 < x \<Longrightarrow> 0 \<le> fl_pos x"
proof -
  assume "0 < x"
  then obtain m :: int and e :: int where
    f: "fl_pos x = of_int m * 2 powr of_int e" and m: "0 \<le> m"
    by (rule fl_pos_form)
  then show ?thesis by simp
qed

lemma fl_pos_idem: "0 < x \<Longrightarrow> fl_pos (fl_pos x) = fl_pos x"
proof -
  assume "0 < x"
  then obtain m :: int and e :: int where
    f: "fl_pos x = of_int m * 2 powr of_int e" and m: "0 \<le> m" "m \<le> 2 ^ 53"
      "2 ^ 52 \<le> m \<or> e = - 1074" "- 1074 \<le> e"
    by (rule fl_pos_form)
  show ?thesis unfolding f by (rule fl_pos_representable [OF m])
qed

lemma fl_nonneg: "0 \<le> x \<Longrightarrow> 0 \<le> fl x"
  using fl_pos_nonneg [of x] by (cases "x = 0") (simp_all add: fl_def)

lemma fl_idem_nonneg: "0 \<le> x \<Longrightarrow> fl (fl x) = fl x"
proof -
  assume x: "0 \<le> x"
  show ?thesis
  proof (cases "x = 0")
    case True
    then show ?thesis by simp
  next
    case False
    with x have p: "0 < x" by simp
    have r: "fl x = fl_pos x" using p by (simp add: fl_def)
    show ?thesis
    proof (cases "fl_pos x = 0")
      case True
      then show ?thesis by (simp add: r)
    next
      case False
      with fl_pos_nonneg [OF p] have "0 < fl_pos x" by simp
      then have "fl (fl_pos x) = fl_pos (fl_pos x)" by (simp add: fl_def)
      then show ?thesis by (simp add: r fl_pos_idem [OF p])
    qed
  qed
qed

lemma fl_idem: "fl (fl x) = fl x"
proof (cases "0 \<le> x")
  case True
  then show ?thesis by (rule fl_idem_nonneg)
next
  case False
  then have "0 \<le> - x" by simp
  then have "fl (fl (- x)) = fl (- x)" by (rule fl_idem_nonneg)
  then show ?thesis by (simp add: fl_minus)
qed

lemma fl_cancel: "fl (fl a + fl (0 - fl a)) = 0"
  by (simp add: fl_minus fl_idem)

text \<open>Rounded values met in the instances below.\<close>

lemma fl_eval:
  assumes "0 < x" "2 powr of_int L \<le> x" "x < 2 powr of_int (L + 1)" "- 1022 \<le> L"
  shows "fl x = of_int (round_even (x / 2 powr of_int (L - 52))) * 2 powr of_int (L - 52)"
  using assms by (simp add: fl_def fl_pos_eq)

lemma fl_7: "fl 7 = 7"
  using fl_eval [of 7 2] by (simp add: round_even_def powr_neg_numeral)

lemma fl_255: "fl 255 = 255"
  using fl_eval [of 255 7] by (simp add: round_even_def powr_neg_numeral)

lemma fl_seventh: "fl (1 / 7) = 2573485501354569 / 18014398509481984"
  using fl_eval [of "1 / 7" "- 3"] by (simp add: round_even_def powr_neg_numeral)

lemma fl_scale_7: "fl (656238802845415095 / 18014398509481984) = 5126865647229805 / 140737488355328"
  using fl_eval [of "656238802845415095 / 18014398509481984" 5]
  by (simp add: round_even_def powr_neg_numeral)

lemma fl_max_7: "fl (35888059530608635 / 140737488355328) = 8972014882652159 / 35184372088832"
  using fl_eval [of "35888059530608635 / 140737488355328" 7]
  by (simp add: round_even_def powr_neg_numeral)

subsection \<open>Shape and entries of the Gaussian mask\<close>

lemma nrows_map2_nd [simp]: "nrows (map2_nd f a b) = nrows a"
  by (simp add: map2_nd_def)

lemma ncols_map2_nd [simp]: "ncols (map2_nd f a b) = ncols a"
  by (simp add: map2_nd_def)

lemma wf_map2_nd [simp]:
  "wf_nd a \<Longrightarrow> wf_nd b \<Longrightarrow> nrows a = nrows b \<Longrightarrow> ncols a = ncols b \<Longrightarrow> wf_nd (map2_nd f a b)"
  by (auto simp: map2_nd_def wf_nd_def list_all_iff set_zip)

lemma nd_at_map2_nd [simp]:
  "wf_nd a \<Longrightarrow> wf_nd b \<Longrightarrow> nrows a = nrows b \<Longrightarrow> ncols a = ncols b \<Longrightarrow>
   r < nrows a \<Longrightarrow> c < ncols a \<Longrightarrow> nd_at (map2_nd f a b) r c = f (nd_at a r c) (nd_at b r c)"
  by (simp add: map2_nd_def wf_nd_def nd_at_def list_all_length)

lemma meshgrid_shape [simp]:
  "nrows (fst (meshgrid x y)) = length y" "ncols (fst (meshgrid x y)) = length x"
  "nrows (snd (meshgrid x y)) = length y" "ncols (snd (meshgrid x y)) = length x"
  by (simp_all add: meshgrid_def)

lemma wf_meshgrid [simp]: "wf_nd (fst (meshgrid x y))" "wf_nd (snd (meshgrid x y))"
  by (simp_all add: meshgrid_def wf_nd_def list_all_iff)

lemma nd_at_meshgrid [simp]:
  "r < length y \<Longrightarrow> c < length x \<Longrightarrow> nd_at (fst (meshgrid x y)) r c = x ! c"
  "r < length y \<Longrightarrow> c < length x \<Longrightarrow> nd_at (snd (meshgrid x y)) r c = y ! r"
  by (simp_all add: meshgrid_def nd_at_def)

lemma length_arange_minus [simp]: "length (arange_minus n c) = n"
  by (simp add: arange_minus_def)

lemma nth_arange_minus [simp]: "i < n \<Longrightarrow> arange_minus n c ! i = int i - int c"
  by (simp add: arange_minus_def)

lemma create_gaussian_mask_unfold:
  "create_gaussian_mask H W sigma =
     (case py_float_sq sigma of
        Inl e \<Rightarrow> Inl e
      | Inr sigma_sq \<Rightarrow>
          Inr (map_nd (\<lambda>d. exp (- real_of_int d / (2 * (sigma_sq + 1 / 1000000))))
            (map2_nd (+)
              (map_nd (\<lambda>v. v\<^sup>2) (fst (meshgrid (arange_minus W (W div 2)) (arange_minus H (H div 2)))))
              (map_nd (\<lambda>v. v\<^sup>2) (snd (meshgrid (arange_minus W (W div 2)) (arange_minus H (H div 2))))))))"
  by (simp add: create_gaussian_mask_def Let_def split_beta)

lemma create_gaussian_mask_overflow:
  "DBL_ROUNDS_TO_INF \<le> sigma\<^sup>2 \<Longrightarrow> create_gaussian_mask H W sigma = Inl OverflowError"
  by (simp add: create_gaussian_mask_unfold py_float_sq_def)

lemma create_gaussian_mask_shape:
  assumes "create_gaussian_mask H W sigma = Inr M"
  shows "nrows M = H" "ncols M = W" "wf_nd M"
  using assms by (auto simp: create_gaussian_mask_unfold split: sum.splits)

lemma create_gaussian_mask_Inr:
  assumes "sigma\<^sup>2 < DBL_ROUNDS_TO_INF"
  obtains M where "create_gaussian_mask H W sigma = Inr M"
    "nrows M = H" "ncols M = W" "wf_nd M"
    "\<And>y x. y < H \<Longrightarrow> x < W \<Longrightarrow> nd_at M y x =
       exp (- real_of_int ((int x - int (W div 2))\<^sup>2 + (int y - int (H div 2))\<^sup>2)
              / (2 * (sigma\<^sup>2 + 1 / 1000000)))"
proof -
  let ?M = "map_nd (\<lambda>d. exp (- real_of_int d / (2 * (sigma\<^sup>2 + 1 / 1000000))))
            (map2_nd (+)
              (map_nd (\<lambda>v. v\<^sup>2) (fst (meshgrid (arange_minus W (W div 2)) (arange_minus H (H div 2)))))
              (map_nd (\<lambda>v. v\<^sup>2) (snd (meshgrid (arange_minus W (W div 2)) (arange_minus H (H div 2))))))"
  have c: "create_gaussian_mask H W sigma = Inr ?M"
    using assms by (simp add: create_gaussian_mask_unfold py_float_sq_def)
  have "nd_at ?M y x =
       exp (- real_of_int ((int x - int (W div 2))\<^sup>2 + (int y - int (H div 2))\<^sup>2)
              / (2 * (sigma\<^sup>2 + 1 / 1000000)))" if "y < H" "x < W" for y x
    using that by (simp add: diff_divide_distrib add_divide_distrib)
  with c show ?thesis using that [of ?M] by simp
qed

subsection \<open>Polar form of the masked spectrum\<close>

lemma map2_map_map: "map2 f (map g xs) (map h xs) = map (\<lambda>x. f (g x) (h x)) xs"
  by (induction xs) auto

lemma map2_nd_map_nd: "map2_nd f (map_nd g a) (map_nd h a) = map_nd (\<lambda>z. f (g z) (h z)) a"
proof -
  have "map2 (map2 f) (map (map g) rs) (map (map h) rs) = map (map (\<lambda>z. f (g z) (h z))) rs" for rs
    by (induction rs) (auto simp: map2_map_map)
  then show ?thesis by (simp add: map2_nd_def map_nd_def)
qed

lemma map_nd_map_nd: "map_nd f (map_nd g a) = map_nd (\<lambda>z. f (g z)) a"
  by (simp add: map_nd_def comp_def)

lemma polar_recombine:
  "complex_of_real (weight * cmod z) * exp (\<i> * complex_of_real (Arg z)) = complex_of_real weight * z"
proof -
  have "complex_of_real (cmod z) * cis (Arg z) = z"
    using rcis_cmod_Arg [of z] by (simp add: rcis_def)
  then show ?thesis
    by (simp add: cis_conv_exp [symmetric] mult.assoc)
qed

subsection \<open>Broadcasting of equal shapes\<close>

lemma tabulate2_cong:
  "(\<And>r c. r < h \<Longrightarrow> c < w \<Longrightarrow> f r c = g r c) \<Longrightarrow> tabulate2 h w f = tabulate2 h w g"
  by (simp add: tabulate2_def)

lemma bc_at_in_range [simp]: "r < nrows a \<Longrightarrow> c < ncols a \<Longrightarrow> bc_at a r c = nd_at a r c"
  by (auto simp: bc_at_def bc_index_def)

lemma bc_dim_same [simp]: "bc_dim n n = Some n"
  by (simp add: bc_dim_def)

lemma broadcast2_same_shape:
  "nrows a = nrows b \<Longrightarrow> ncols a = ncols b \<Longrightarrow>
   broadcast2 f a b = Inr (tabulate2 (nrows a) (ncols a) (\<lambda>r c. f (nd_at a r c) (nd_at b r c)))"
  by (auto simp: broadcast2_def intro!: tabulate2_cong)

subsection \<open>The zero spectrum\<close>

lemma sum_list_map_zero: "(\<And>x. x \<in> set xs \<Longrightarrow> f x = 0) \<Longrightarrow> (\<Sum>x\<leftarrow>xs. f x) = (0::'a::comm_monoid_add)"
  by (induction xs) auto

lemma nd_at_np_zeros [simp]: "r < h \<Longrightarrow> c < w \<Longrightarrow> nd_at (np_zeros h w) r c = 0"
  by (simp add: np_zeros_def)

lemma shape_np_zeros [simp]: "nrows (np_zeros h w) = h" "ncols (np_zeros h w) = w" "wf_nd (np_zeros h w)"
  by (simp_all add: np_zeros_def)

lemma tabulate2_zero: "(\<And>r c. r < h \<Longrightarrow> c < w \<Longrightarrow> f r c = 0) \<Longrightarrow> tabulate2 h w f = np_zeros h w"
  unfolding np_zeros_def by (rule tabulate2_cong)

lemma map_nd_tabulate2: "map_nd g (tabulate2 h w f) = tabulate2 h w (\<lambda>r c. g (f r c))"
  by (simp add: map_nd_def tabulate2_def)

lemma ifftshift_zeros: "ifftshift (np_zeros h w :: complex ndarray) = np_zeros h w"
proof (cases "0 < h \<and> 0 < w")
  case True
  then show ?thesis
    by (auto simp: ifftshift_def Let_def intro!: tabulate2_zero)
next
  case False
  then show ?thesis
    by (auto simp: ifftshift_def Let_def np_zeros_def tabulate2_def)
qed

lemma ifft2_zeros:
  assumes "0 < h" "0 < w"
  shows "ifft2 (np_zeros h w) = Inr (np_zeros h w)"
proof -
  have "ifft_last_axis (np_zeros h w) = Inr (np_zeros h w)"
    using assms by (auto simp: ifft_last_axis_def intro!: tabulate2_zero sum_list_map_zero)
  moreover have "ifft_first_axis (np_zeros h w) = Inr (np_zeros h w)"
    using assms by (auto simp: ifft_first_axis_def intro!: tabulate2_zero sum_list_map_zero)
  ultimately show ?thesis by (simp add: ifft2_def)
qed

lemma map_nd_zeros: "g 0 = 0 \<Longrightarrow> map_nd g (np_zeros h w) = np_zeros h w"
  by (simp add: np_zeros_def map_nd_tabulate2)

lemma magnitude_image_zeros:
  "lib_ifft2 lib (np_zeros h w) = Inr (np_zeros h w) \<Longrightarrow>
   magnitude_image lib (np_zeros h w) = Inr (np_zeros h w)"
  by (simp add: magnitude_image_def ifftshift_zeros map_nd_zeros)

lemma concat_rows_zeros: "set (concat (rows (np_zeros h w :: real ndarray))) \<subseteq> {0}"
  by (auto simp: np_zeros_def tabulate2_def)

lemma nd_min_eq_Min:
  assumes "concat (rows a) \<noteq> []"
  shows "nd_min a = Min (set (concat (rows a)))"
proof (cases "concat (rows a)")
  case Nil
  with assms show ?thesis by blast
next
  case (Cons x xs)
  then have "nd_min a = fold min xs x" by (simp add: nd_min_def)
  also have "\<dots> = Min (set (x # xs))" by (rule Min.set_eq_fold [symmetric])
  finally show ?thesis by (simp only: Cons)
qed

lemma nd_max_eq_Max:
  assumes "concat (rows a) \<noteq> []"
  shows "nd_max a = Max (set (concat (rows a)))"
proof (cases "concat (rows a)")
  case Nil
  with assms show ?thesis by blast
next
  case (Cons x xs)
  then have "nd_max a = fold max xs x" by (simp add: nd_max_def)
  also have "\<dots> = Max (set (x # xs))" by (rule Max.set_eq_fold [symmetric])
  finally show ?thesis by (simp only: Cons)
qed

lemma nd_min_zeros [simp]: "nd_min (np_zeros h w) = 0"
proof (cases "concat (rows (np_zeros h w :: real ndarray)) = []")
  case True
  then show ?thesis by (simp add: nd_min_def del: concat_eq_Nil_conv)
next
  case False
  then have "set (concat (rows (np_zeros h w :: real ndarray))) = {0}"
    using concat_rows_zeros [of h w] by (metis set_empty subset_singletonD)
  then show ?thesis by (simp only: nd_min_eq_Min [OF False] Min_singleton)
qed

lemma nd_max_zeros [simp]: "nd_max (np_zeros h w) = 0"
proof (cases "concat (rows (np_zeros h w :: real ndarray)) = []")
  case True
  then show ?thesis by (simp add: nd_max_def del: concat_eq_Nil_conv)
next
  case False
  then have "set (concat (rows (np_zeros h w :: real ndarray))) = {0}"
    using concat_rows_zeros [of h w] by (metis set_empty subset_singletonD)
  then show ?thesis by (simp only: nd_max_eq_Max [OF False] Max_singleton)
qed

lemma normalize_uint8_zeros: "normalize_uint8 (np_zeros h w) = np_zeros h w"
  by (simp add: normalize_uint8_def cv_normalize_minmax_def DBL_EPSILON_def map_nd_zeros
      astype_uint8_def)

lemma mix_slot_skipped:
  assumes "i < length images" "images ! i = None \<or> (i < length weights \<and> weights ! i = 0)"
  shows "mix_slot lib self images weights component_selections gaussian_mask i combined_ft
           = Inr combined_ft"
  using assms by (auto simp: mix_slot_def py_get_def split: option.splits)

lemma mix_slots_skipped:
  assumes "\<forall>i\<in>set idxs. i < length images \<and> (images ! i = None \<or> (i < length weights \<and> weights ! i = 0))"
  shows "mix_slots lib self images weights component_selections gaussian_mask idxs combined_ft
           = Inr combined_ft"
  using assms by (induction idxs) (simp_all add: mix_slot_skipped)

subsection \<open>Least and greatest entry, and the normalised pixels\<close>

lemma entries_wf:
  assumes "wf_nd a"
  shows "set (concat (rows a)) = {nd_at a r c | r c. r < nrows a \<and> c < ncols a}"
proof -
  have len: "length (rows a) = nrows a" and row: "\<And>r. r < nrows a \<Longrightarrow> length (rows a ! r) = ncols a"
    using assms by (simp_all add: wf_nd_def list_all_length)
  show ?thesis
  proof (intro set_eqI iffI)
    fix v assume "v \<in> set (concat (rows a))"
    then obtain xs where xs: "xs \<in> set (rows a)" "v \<in> set xs" by auto
    then obtain r where r: "r < nrows a" "xs = rows a ! r"
      using len by (metis in_set_conv_nth)
    from xs(2) obtain c where c: "c < length xs" "v = xs ! c"
      by (metis in_set_conv_nth)
    with r row have "c < ncols a" by simp
    with r c show "v \<in> {nd_at a r c | r c. r < nrows a \<and> c < ncols a}"
      by (auto simp: nd_at_def)
  next
    fix v assume "v \<in> {nd_at a r c | r c. r < nrows a \<and> c < ncols a}"
    then obtain r c where rc: "r < nrows a" "c < ncols a" "v = nd_at a r c" by auto
    then have "rows a ! r \<in> set (rows a)" "v \<in> set (rows a ! r)"
      using len row by (simp_all add: nd_at_def)
    then show "v \<in> set (concat (rows a))" by auto
  qed
qed

lemma nd_min_max_props:
  assumes "wf_nd a" "0 < nrows a" "0 < ncols a"
  shows nd_min_le: "\<And>r c. r < nrows a \<Longrightarrow> c < ncols a \<Longrightarrow> nd_min a \<le> nd_at a r c"
    and nd_max_ge: "\<And>r c. r < nrows a \<Longrightarrow> c < ncols a \<Longrightarrow> nd_at a r c \<le> nd_max a"
    and nd_min_attained: "\<exists>r c. r < nrows a \<and> c < ncols a \<and> nd_at a r c = nd_min a"
    and nd_max_attained: "\<exists>r c. r < nrows a \<and> c < ncols a \<and> nd_at a r c = nd_max a"
proof -
  let ?S = "set (concat (rows a))"
  have S: "?S = {nd_at a r c | r c. r < nrows a \<and> c < ncols a}"
    by (rule entries_wf [OF assms(1)])
  have "nd_at a 0 0 \<in> ?S" using assms(2,3) unfolding S by blast
  then have ne: "concat (rows a) \<noteq> []" by (metis empty_iff set_empty)
  have fin: "finite ?S" by simp
  have neS: "?S \<noteq> {}" using ne by (simp only: set_empty not_False_eq_True)
  have mn: "nd_min a = Min ?S" and mx: "nd_max a = Max ?S"
    by (rule nd_min_eq_Min [OF ne], rule nd_max_eq_Max [OF ne])
  show "nd_min a \<le> nd_at a r c" if "r < nrows a" "c < ncols a" for r c
  proof -
    have "nd_at a r c \<in> ?S" using that unfolding S by blast
    then show ?thesis unfolding mn by (rule Min_le [OF fin])
  qed
  show "nd_at a r c \<le> nd_max a" if "r < nrows a" "c < ncols a" for r c
  proof -
    have "nd_at a r c \<in> ?S" using that unfolding S by blast
    then show ?thesis unfolding mx by (rule Max_ge [OF fin])
  qed
  have "nd_min a \<in> ?S" unfolding mn by (rule Min_in [OF fin neS])
  then have "nd_min a \<in> {nd_at a r c | r c. r < nrows a \<and> c < ncols a}" by (simp only: S)
  then show "\<exists>r c. r < nrows a \<and> c < ncols a \<and> nd_at a r c = nd_min a"
    by (simp only: mem_Collect_eq) metis
  have "nd_max a \<in> ?S" unfolding mx by (rule Max_in [OF fin neS])
  then have "nd_max a \<in> {nd_at a r c | r c. r < nrows a \<and> c < ncols a}" by (simp only: S)
  then show "\<exists>r c. r < nrows a \<and> c < ncols a \<and> nd_at a r c = nd_max a"
    by (simp only: mem_Collect_eq) metis
qed

lemma astype_uint8_range: "0 \<le> uint (astype_uint8 v)" "uint (astype_uint8 v) \<le> 255"
proof -
  show "0 \<le> uint (astype_uint8 v)" by simp
  have "uint (astype_uint8 v) < 2 ^ 8"
    using uint_bounded [of "astype_uint8 v"] by simp
  then show "uint (astype_uint8 v) \<le> 255" by simp
qed

lemma astype_uint8_zero [simp]: "astype_uint8 0 = 0"
  by (simp add: astype_uint8_def)

lemma nd_at_normalize_uint8:
  assumes "wf_nd a" "r < nrows a" "c < ncols a"
  shows "nd_at (normalize_uint8 a) r c =
     astype_uint8
       (fl (fl (nd_at a r c
                * fl (fl 255 * (if fl (nd_max a - nd_min a) > DBL_EPSILON
                                then fl (1 / fl (nd_max a - nd_min a)) else 0)))
            + fl (0 - fl (nd_min a
                * fl (fl 255 * (if fl (nd_max a - nd_min a) > DBL_EPSILON
                                then fl (1 / fl (nd_max a - nd_min a)) else 0))))))"
  using assms by (simp add: normalize_uint8_def cv_normalize_minmax_def Let_def)

lemma normalize_uint8_at_min:
  assumes "wf_nd a" "r < nrows a" "c < ncols a" "nd_at a r c = nd_min a"
  shows "nd_at (normalize_uint8 a) r c = 0"
  unfolding nd_at_normalize_uint8 [OF assms(1-3)] assms(4)
  by (simp only: fl_cancel astype_uint8_zero)

lemma normalize_uint8_degenerate:
  assumes "wf_nd a" "r < nrows a" "c < ncols a" "\<not> fl (nd_max a - nd_min a) > DBL_EPSILON"
  shows "nd_at (normalize_uint8 a) r c = 0"
  unfolding nd_at_normalize_uint8 [OF assms(1-3)] using assms(4) by simp

subsection \<open>Shapes through the loop and the reconstruction\<close>

lemma iadd_nd_shape:
  assumes "iadd_nd combined_ft x = Inr c'"
  shows "nrows c' = nrows combined_ft \<and> ncols c' = ncols combined_ft \<and> wf_nd c'"
  using assms by (auto simp: iadd_nd_def split: if_splits)

lemma add_component_shape:
  assumes "add_component selected weight masked combined_ft = Inr c'" "wf_nd combined_ft"
  shows "nrows c' = nrows combined_ft \<and> ncols c' = ncols combined_ft \<and> wf_nd c'"
  using assms
  by (auto simp: add_component_def Let_def split: if_splits dest: iadd_nd_shape)

lemma mix_slot_shape:
  assumes "mix_slot lib self images weights component_selections gaussian_mask i combined_ft = Inr c'"
    and "wf_nd combined_ft"
  shows "nrows c' = nrows combined_ft \<and> ncols c' = ncols combined_ft \<and> wf_nd c'"
  using assms
  by (auto simp: mix_slot_def split: sum.splits option.splits if_splits dest: add_component_shape)

lemma mix_slots_shape:
  assumes "mix_slots lib self images weights component_selections gaussian_mask idxs combined_ft = Inr c'"
    and "wf_nd combined_ft"
  shows "nrows c' = nrows combined_ft \<and> ncols c' = ncols combined_ft \<and> wf_nd c'"
  using assms
proof (induction idxs arbitrary: combined_ft)
  case Nil
  then show ?case by simp
next
  case (Cons i idxs)
  from Cons.prems(1) obtain c1 where
    c1: "mix_slot lib self images weights component_selections gaussian_mask i combined_ft = Inr c1"
    and rest: "mix_slots lib self images weights component_selections gaussian_mask idxs c1 = Inr c'"
    by (auto split: sum.splits)
  from mix_slot_shape [OF c1 Cons.prems(2)] Cons.IH [OF rest] show ?case by simp
qed

lemma shape_ifftshift [simp]:
  "nrows (ifftshift a) = nrows a" "ncols (ifftshift a) = ncols a" "wf_nd (ifftshift a)"
  by (simp_all add: ifftshift_def Let_def)

lemma shape_fftshift [simp]:
  "nrows (fftshift a) = nrows a" "ncols (fftshift a) = ncols a" "wf_nd (fftshift a)"
  by (simp_all add: fftshift_def Let_def)

lemma shape_normalize_uint8 [simp]:
  "nrows (normalize_uint8 a) = nrows a" "ncols (normalize_uint8 a) = ncols a"
  by (simp_all add: normalize_uint8_def cv_normalize_minmax_def Let_def)

lemma wf_normalize_uint8 [simp]: "wf_nd a \<Longrightarrow> wf_nd (normalize_uint8 a)"
  by (simp add: normalize_uint8_def cv_normalize_minmax_def Let_def)

lemma mix_images_Inr_D:
  assumes "mix_images lib self images weights component_selections selector_region (Some H) (Some W)
             = Inr out"
  obtains gaussian_mask combined_ft mixed_image where
    "2 < length selector_region"
    "create_gaussian_mask H W (selector_region ! 2) = Inr gaussian_mask"
    "mix_slots lib self images weights component_selections gaussian_mask [0..<4] (np_zeros H W)
       = Inr combined_ft"
    "magnitude_image lib combined_ft = Inr mixed_image"
    "out = normalize_uint8 mixed_image"
  using assms
  by (auto simp: mix_images_def py_get_def split: sum.splits if_splits)

subsection \<open>When the loop returns and when it raises\<close>

lemma exact_fft_keeps_shape: "transforms_keep_shape exact_fft"
  by (simp add: transforms_keep_shape_def exact_fft_def fft2_def fft_last_axis_def
      fft_first_axis_def ifft2_def ifft_last_axis_def ifft_first_axis_def)

lemma lib_fft2_Inr:
  assumes "transforms_keep_shape lib" "wf_nd a" "0 < nrows a" "0 < ncols a"
  obtains F where "lib_fft2 lib a = Inr F" "wf_nd F" "nrows F = nrows a" "ncols F = ncols a"
  using assms unfolding transforms_keep_shape_def by (metis (no_types, lifting))

lemma lib_ifft2_Inr:
  assumes "transforms_keep_shape lib" "wf_nd a" "0 < nrows a" "0 < ncols a"
  obtains F where "lib_ifft2 lib a = Inr F" "wf_nd F" "nrows F = nrows a" "ncols F = ncols a"
  using assms unfolding transforms_keep_shape_def by (metis (no_types, lifting))

lemma lib_ifft2_shape:
  assumes "transforms_keep_shape lib" "wf_nd a" "lib_ifft2 lib a = Inr F"
  shows "wf_nd F" "nrows F = nrows a" "ncols F = ncols a" "0 < nrows a" "0 < ncols a"
proof -
  have pos: "0 < nrows a \<and> 0 < ncols a"
  proof (rule ccontr)
    assume "\<not> (0 < nrows a \<and> 0 < ncols a)"
    then have "lib_ifft2 lib a = Inl ValueError"
      using assms(1,2) unfolding transforms_keep_shape_def by (metis (no_types, lifting))
    with assms(3) show False by simp
  qed
  then show "0 < nrows a" "0 < ncols a" by simp_all
  from pos obtain F' where "lib_ifft2 lib a = Inr F'" "wf_nd F'" "nrows F' = nrows a" "ncols F' = ncols a"
    using lib_ifft2_Inr [OF assms(1,2)] by blast
  with assms(3) show "wf_nd F" "nrows F = nrows a" "ncols F = ncols a" by simp_all
qed

lemma magnitude_image_shape:
  assumes "transforms_keep_shape lib" "magnitude_image lib c = Inr m"
  shows "nrows m = nrows c" "ncols m = ncols c" "wf_nd m" "0 < nrows c" "0 < ncols c"
proof -
  from assms(2) obtain Y where Y: "lib_ifft2 lib (ifftshift c) = Inr Y" and m: "m = map_nd cmod Y"
    by (auto simp: magnitude_image_def split: sum.splits)
  from lib_ifft2_shape [OF assms(1) _ Y]
  show "nrows m = nrows c" "ncols m = ncols c" "wf_nd m" "0 < nrows c" "0 < ncols c"
    by (simp_all add: m)
qed

lemma magnitude_image_Inr:
  assumes "transforms_keep_shape lib" "0 < nrows c" "0 < ncols c"
  shows "\<exists>m. magnitude_image lib c = Inr m"
proof -
  obtain Y where "lib_ifft2 lib (ifftshift c) = Inr Y"
    using lib_ifft2_Inr [OF assms(1), of "ifftshift c"] assms(2,3) by auto
  then show ?thesis by (simp add: magnitude_image_def)
qed

lemma iadd_nd_cases:
  "broadcastable_to (nrows c) (ncols c) x \<Longrightarrow> \<exists>c'. iadd_nd c x = Inr c'"
  "\<not> broadcastable_to (nrows c) (ncols c) x \<Longrightarrow> iadd_nd c x = Inl ValueError"
  by (simp_all add: iadd_nd_def broadcastable_to_def)

lemma add_component_cases:
  assumes "selected \<in> {''FT Magnitude'', ''FT Phase'', ''FT Real'', ''FT Imaginary''}"
  shows "broadcastable_to (nrows c) (ncols c) masked \<Longrightarrow> \<exists>c'. add_component selected weight masked c = Inr c'"
    and "\<not> broadcastable_to (nrows c) (ncols c) masked \<Longrightarrow> add_component selected weight masked c = Inl ValueError"
  using assms
  by (auto simp: add_component_def Let_def iadd_nd_def broadcastable_to_def)

lemma apply_region_mask_cases:
  assumes "region_mode self \<in> {''None'', ''Inner'', ''Outer''}" "nrows G = H" "ncols G = W"
  shows "broadcastable_to H W F \<Longrightarrow>
           \<exists>M. apply_region_mask self F G = Inr M \<and> broadcastable_to H W M"
    and "\<not> broadcastable_to H W F \<Longrightarrow>
           apply_region_mask self F G = Inl ValueError
           \<or> (\<exists>M. apply_region_mask self F G = Inr M \<and> \<not> broadcastable_to H W M)"
  using assms
  by (auto simp: apply_region_mask_def mul_mask_def broadcast2_def bc_dim_def broadcastable_to_def
      split: if_splits)

lemma mix_slot_active:
  assumes lib: "transforms_keep_shape lib" and wfi: "wf_nd img"
    and sel: "i < length component_selections"
      "component_selections ! i \<in> {''FT Magnitude'', ''FT Phase'', ''FT Real'', ''FT Imaginary''}"
    and mode: "region_mode self \<in> {''None'', ''Inner'', ''Outer''}"
    and len: "i < length images" "i < length weights"
    and act: "images ! i = Some img" "weights ! i \<noteq> 0"
    and img: "0 < nrows img" "0 < ncols img"
    and shp: "nrows G = nrows c" "ncols G = ncols c"
  shows "broadcastable_to (nrows c) (ncols c) img \<Longrightarrow>
           \<exists>c'. mix_slot lib self images weights component_selections G i c = Inr c'"
    and "\<not> broadcastable_to (nrows c) (ncols c) img \<Longrightarrow>
           mix_slot lib self images weights component_selections G i c = Inl ValueError"
proof -
  obtain F where F: "lib_fft2 lib img = Inr F" "nrows F = nrows img" "ncols F = ncols img"
    using lib_fft2_Inr [OF lib wfi img] by blast
  have bF: "broadcastable_to (nrows c) (ncols c) (fftshift F) = broadcastable_to (nrows c) (ncols c) img"
    using F by (simp add: broadcastable_to_def)
  have unfold: "mix_slot lib self images weights component_selections G i c =
      (case apply_region_mask self (fftshift F) G of
         Inl e \<Rightarrow> Inl e
       | Inr masked \<Rightarrow> add_component (component_selections ! i) (weights ! i) masked c)"
    using sel(1) len act F(1) by (simp add: mix_slot_def py_get_def split: sum.splits)
  show "\<exists>c'. mix_slot lib self images weights component_selections G i c = Inr c'"
    if "broadcastable_to (nrows c) (ncols c) img"
  proof -
    from that bF apply_region_mask_cases(1) [OF mode shp]
    obtain M where M: "apply_region_mask self (fftshift F) G = Inr M"
      "broadcastable_to (nrows c) (ncols c) M" by blast
    from add_component_cases(1) [OF sel(2) M(2)] M(1) show ?thesis
      by (simp add: unfold)
  qed
  show "mix_slot lib self images weights component_selections G i c = Inl ValueError"
    if "\<not> broadcastable_to (nrows c) (ncols c) img"
  proof -
    from that bF apply_region_mask_cases(2) [OF mode shp, of "fftshift F"]
    consider "apply_region_mask self (fftshift F) G = Inl ValueError"
      | M where "apply_region_mask self (fftshift F) G = Inr M"
          "\<not> broadcastable_to (nrows c) (ncols c) M" by blast
    then show ?thesis
    proof cases
      case 1
      then show ?thesis by (simp add: unfold)
    next
      case 2
      from add_component_cases(2) [OF sel(2) 2(2)] 2(1) show ?thesis
        by (simp add: unfold)
    qed
  qed
qed


lemma mix_slots_all_broadcastable:
  assumes "slots_well_formed self images weights component_selections"
    and lib: "transforms_keep_shape lib"
    and "set idxs \<subseteq> {..<4}" "nrows G = nrows c" "ncols G = ncols c" "wf_nd c"
    and "\<forall>i\<in>set idxs. \<forall>img. images ! i = Some img \<longrightarrow> weights ! i \<noteq> 0 \<longrightarrow>
           broadcastable_to (nrows c) (ncols c) img"
  shows "\<exists>c'. mix_slots lib self images weights component_selections G idxs c = Inr c'"
  using assms(3-)
proof (induction idxs arbitrary: c)
  case Nil
  then show ?case by simp
next
  case (Cons i idxs)
  have i: "i < 4" using Cons.prems(1) by simp
  have len: "i < length images" "i < length weights" "i < length component_selections"
    and sel: "component_selections ! i \<in> {''FT Magnitude'', ''FT Phase'', ''FT Real'', ''FT Imaginary''}"
    and mode: "region_mode self \<in> {''None'', ''Inner'', ''Outer''}"
    using assms(1) i by (simp_all add: slots_well_formed_def)
  have "\<exists>c1. mix_slot lib self images weights component_selections G i c = Inr c1"
  proof (cases "images ! i = None \<or> weights ! i = 0")
    case True
    then show ?thesis using mix_slot_skipped [of i images weights] len by auto
  next
    case False
    then obtain img where img: "images ! i = Some img" "weights ! i \<noteq> 0" by auto
    then have pos: "0 < nrows img" "0 < ncols img" and wfi: "wf_nd img"
      using assms(1) i by (auto simp: slots_well_formed_def)
    have "broadcastable_to (nrows c) (ncols c) img" using Cons.prems(5) img by simp
    with mix_slot_active(1) [OF lib wfi len(3) sel mode len(1,2) img pos Cons.prems(2,3)]
    show ?thesis by blast
  qed
  then obtain c1 where c1: "mix_slot lib self images weights component_selections G i c = Inr c1" ..
  from mix_slot_shape [OF c1 Cons.prems(4)]
  have s1: "nrows c1 = nrows c" "ncols c1 = ncols c" "wf_nd c1" by simp_all
  have "\<exists>c'. mix_slots lib self images weights component_selections G idxs c1 = Inr c'"
    using Cons.prems s1 by (intro Cons.IH) auto
  then show ?case using c1 by simp
qed

lemma mix_slots_not_broadcastable:
  assumes "slots_well_formed self images weights component_selections"
    and lib: "transforms_keep_shape lib"
    and "set idxs \<subseteq> {..<4}" "nrows G = nrows c" "ncols G = ncols c" "wf_nd c"
    and "\<exists>i\<in>set idxs. \<exists>img. images ! i = Some img \<and> weights ! i \<noteq> 0 \<and>
           \<not> broadcastable_to (nrows c) (ncols c) img"
  shows "mix_slots lib self images weights component_selections G idxs c = Inl ValueError"
  using assms(3-)
proof (induction idxs arbitrary: c)
  case Nil
  then show ?case by simp
next
  case (Cons i idxs)
  have i: "i < 4" using Cons.prems(1) by simp
  have len: "i < length images" "i < length weights" "i < length component_selections"
    and sel: "component_selections ! i \<in> {''FT Magnitude'', ''FT Phase'', ''FT Real'', ''FT Imaginary''}"
    and mode: "region_mode self \<in> {''None'', ''Inner'', ''Outer''}"
    using assms(1) i by (simp_all add: slots_well_formed_def)
  let ?bad = "\<lambda>c j. \<exists>img. images ! j = Some img \<and> weights ! j \<noteq> 0
                 \<and> \<not> broadcastable_to (nrows c) (ncols c) img"
  show ?case
  proof (cases "?bad c i")
    case True
    then obtain img where img: "images ! i = Some img" "weights ! i \<noteq> 0"
      and nb: "\<not> broadcastable_to (nrows c) (ncols c) img" by blast
    have pos: "0 < nrows img" "0 < ncols img" and wfi: "wf_nd img"
      using assms(1) i img(1) by (auto simp: slots_well_formed_def)
    from mix_slot_active(2) [OF lib wfi len(3) sel mode len(1,2) img pos Cons.prems(2,3) nb]
    show ?thesis by simp
  next
    case False
    with Cons.prems(5) have later: "\<exists>j\<in>set idxs. ?bad c j" by auto
    have "\<exists>c1. mix_slot lib self images weights component_selections G i c = Inr c1"
    proof (cases "images ! i = None \<or> weights ! i = 0")
      case True
      then show ?thesis using mix_slot_skipped [of i images weights] len by auto
    next
      case F2: False
      then obtain img where img: "images ! i = Some img" "weights ! i \<noteq> 0" by auto
      then have pos: "0 < nrows img" "0 < ncols img" and wfi: "wf_nd img"
        using assms(1) i by (auto simp: slots_well_formed_def)
      have "broadcastable_to (nrows c) (ncols c) img" using False img by blast
      with mix_slot_active(1) [OF lib wfi len(3) sel mode len(1,2) img pos Cons.prems(2,3)]
      show ?thesis by blast
    qed
    then obtain c1 where c1: "mix_slot lib self images weights component_selections G i c = Inr c1" ..
    from mix_slot_shape [OF c1 Cons.prems(4)]
    have s1: "nrows c1 = nrows c" "ncols c1 = ncols c" "wf_nd c1" by simp_all
    have "mix_slots lib self images weights component_selections G idxs c1 = Inl ValueError"
      using Cons.prems(1-3) s1 later by (intro Cons.IH) auto
    then show ?thesis using c1 by simp
  qed
qed

subsection \<open>Roots of unity and the inverse of the transform\<close>

text \<open>
  The discrete Fourier transform is inverted by the orthogonality of the roots of unity:
  \<open>\<Sum>k<N. exp (2 pi i k d / N)\<close> is \<open>N\<close> when \<open>N\<close> divides \<open>d\<close> and 0 otherwise. The real
  part of a spectrum transforms back to the half sum of the signal and its reflection.
\<close>

lemma two_pi_nz: "2 * pi \<noteq> 0"
  by simp

lemma cis_eq_one_dvd:
  assumes "0 < N" "cis (2 * pi * real_of_int d / real N) = 1"
  shows "int N dvd d"
proof -
  have "cos (2 * pi * real_of_int d / real N) = 1"
    using assms(2) by (metis cis.sel(1) one_complex.sel(1))
  then obtain j :: int where j: "2 * pi * real_of_int d / real N = real_of_int j * 2 * pi"
    by (auto simp: cos_one_2pi_int)
  then have "(2 * pi) * (real_of_int d / real N) = (2 * pi) * real_of_int j"
    by (simp add: mult_ac)
  then have "real_of_int d / real N = real_of_int j"
    by (simp only: mult_left_cancel [OF two_pi_nz])
  then have "real_of_int d = real_of_int (j * int N)"
    using assms(1) by (simp add: field_simps)
  then have "d = j * int N" by (simp only: of_int_eq_iff)
  then show ?thesis by simp
qed

lemma unit_root_sum:
  assumes "0 < N"
  shows "(\<Sum>k<N. cis (2 * pi * real k * real_of_int d / real N))
           = (if int N dvd d then of_nat N else 0)"
proof -
  let ?z = "cis (2 * pi * real_of_int d / real N)"
  have pw: "cis (2 * pi * real k * real_of_int d / real N) = ?z ^ k" for k
    by (simp add: DeMoivre mult_ac)
  have zN: "?z ^ N = 1"
  proof -
    have "?z ^ N = cis (2 * pi * real_of_int d)"
      using assms by (simp add: DeMoivre)
    also have "\<dots> = 1" by (rule cis_multiple_2pi) simp
    finally show ?thesis .
  qed
  show ?thesis
  proof (cases "int N dvd d")
    case True
    then obtain j where "d = int N * j" ..
    then have "2 * pi * real_of_int d / real N = 2 * pi * real_of_int j"
      using assms by simp
    then have "?z = 1" by (simp only: cis_multiple_2pi [OF Ints_of_int])
    then show ?thesis using True by (simp add: pw)
  next
    case False
    then have "?z \<noteq> 1" using cis_eq_one_dvd [OF assms] by blast
    then have "(\<Sum>k<N. ?z ^ k) = (?z ^ N - 1) / (?z - 1)" by (rule geometric_sum)
    then show ?thesis using False by (simp add: pw zN)
  qed
qed

lemma twiddle_orthogonal:
  assumes "0 < N" "a < N" "b < N"
  shows "(\<Sum>k<N. cnj (twiddle N k a) * twiddle N k b) = (if a = b then of_nat N else 0)"
proof -
  have "cnj (twiddle N k a) * twiddle N k b
          = cis (2 * pi * real k * real_of_int (int b - int a) / real N)" for k
    by (simp add: twiddle_def cis_cnj cis_mult algebra_simps diff_divide_distrib add_divide_distrib)
  moreover have "int N dvd (int b - int a) \<longleftrightarrow> a = b"
  proof
    assume d: "int N dvd (int b - int a)"
    have "\<bar>int b - int a\<bar> < int N" using assms by linarith
    have "int b - int a = 0"
    proof (rule ccontr)
      assume "int b - int a \<noteq> 0"
      then have "0 < \<bar>int b - int a\<bar>" by simp
      moreover have "int N dvd \<bar>int b - int a\<bar>" using d by simp
      ultimately have "int N \<le> \<bar>int b - int a\<bar>" by (rule zdvd_imp_le [rotated])
      with \<open>\<bar>int b - int a\<bar> < int N\<close> show False by simp
    qed
    then show "a = b" by simp
  qed simp
  ultimately show ?thesis
    using unit_root_sum [OF assms(1), of "int b - int a"] by simp
qed

lemma twiddle_reflect:
  assumes "0 < N" "a < N" "b < N"
  shows "(\<Sum>k<N. twiddle N k a * twiddle N k b) = (if a = (N - b) mod N then of_nat N else 0)"
proof -
  have "twiddle N k a * twiddle N k b
          = cis (2 * pi * real k * real_of_int (int a + int b) / real N)" for k
    by (simp add: twiddle_def cis_mult algebra_simps add_divide_distrib)
  moreover have "int N dvd (int a + int b) \<longleftrightarrow> a = (N - b) mod N"
  proof -
    have "int N dvd (int a + int b) \<longleftrightarrow> N dvd (a + b)"
      by (metis int_dvd_int_iff of_nat_add)
    also have "\<dots> \<longleftrightarrow> a = (N - b) mod N"
    proof (cases "b = 0")
      case True
      then show ?thesis using assms by (auto simp: dvd_eq_mod_eq_0)
    next
      case False
      then have nb: "(N - b) mod N = N - b" using assms by simp
      have "N dvd (a + b) \<longleftrightarrow> a + b = N"
      proof
        assume "N dvd (a + b)"
        then obtain q where q: "a + b = N * q" ..
        have "0 < a + b" "a + b < 2 * N" using False assms by simp_all
        have "q \<noteq> 0" using q \<open>0 < a + b\<close> by auto
        moreover have "q < 2"
        proof (rule ccontr)
          assume "\<not> q < 2"
          then have "N * 2 \<le> N * q" by simp
          with q \<open>a + b < 2 * N\<close> show False by simp
        qed
        ultimately have "q = 1" by simp
        then show "a + b = N" using q by simp
      qed simp
      then show ?thesis using nb assms by auto
    qed
    finally show ?thesis .
  qed
  ultimately show ?thesis
    using unit_root_sum [OF assms(1), of "int a + int b"] by simp
qed

lemma dft_inverse_1d:
  fixes g :: "nat \<Rightarrow> complex"
  assumes "0 < N" "n < N"
  shows "(\<Sum>k<N. (\<Sum>r<N. g r * cnj (twiddle N k r)) * twiddle N k n) = of_nat N * g n"
proof -
  have "(\<Sum>k<N. (\<Sum>r<N. g r * cnj (twiddle N k r)) * twiddle N k n)
      = (\<Sum>k<N. \<Sum>r<N. g r * (cnj (twiddle N k r) * twiddle N k n))"
    by (simp add: sum_distrib_right mult.assoc)
  also have "\<dots> = (\<Sum>r<N. \<Sum>k<N. g r * (cnj (twiddle N k r) * twiddle N k n))"
    by (rule sum.swap)
  also have "\<dots> = (\<Sum>r<N. g r * (\<Sum>k<N. cnj (twiddle N k r) * twiddle N k n))"
    by (simp add: sum_distrib_left)
  also have "\<dots> = (\<Sum>r<N. g r * (if r = n then of_nat N else 0))"
    by (rule sum.cong) (simp_all add: twiddle_orthogonal assms)
  also have "\<dots> = (\<Sum>r<N. if r = n then g r * of_nat N else 0)"
    by (rule sum.cong) simp_all
  also have "\<dots> = g n * of_nat N"
    using assms(2) by (simp only: sum.delta finite_lessThan lessThan_iff if_True)
  finally show ?thesis by (simp add: mult.commute)
qed

lemma dft_reflect_1d:
  fixes g :: "nat \<Rightarrow> complex"
  assumes "0 < N" "n < N"
  shows "(\<Sum>k<N. (\<Sum>r<N. g r * twiddle N k r) * twiddle N k n) = of_nat N * g ((N - n) mod N)"
proof -
  have m: "(N - n) mod N < N" using assms(1) by simp
  have "(\<Sum>k<N. (\<Sum>r<N. g r * twiddle N k r) * twiddle N k n)
      = (\<Sum>k<N. \<Sum>r<N. g r * (twiddle N k r * twiddle N k n))"
    by (simp add: sum_distrib_right mult.assoc)
  also have "\<dots> = (\<Sum>r<N. \<Sum>k<N. g r * (twiddle N k r * twiddle N k n))"
    by (rule sum.swap)
  also have "\<dots> = (\<Sum>r<N. g r * (\<Sum>k<N. twiddle N k r * twiddle N k n))"
    by (simp add: sum_distrib_left)
  also have "\<dots> = (\<Sum>r<N. g r * (if r = (N - n) mod N then of_nat N else 0))"
    by (rule sum.cong) (simp_all add: twiddle_reflect assms)
  also have "\<dots> = (\<Sum>r<N. if r = (N - n) mod N then g r * of_nat N else 0)"
    by (rule sum.cong) simp_all
  also have "\<dots> = g ((N - n) mod N) * of_nat N"
    using m by (simp only: sum.delta finite_lessThan lessThan_iff if_True)
  finally show ?thesis by (simp add: mult.commute)
qed

lemma separable_inverse_2d:
  fixes g :: "nat \<Rightarrow> nat \<Rightarrow> complex" and A B :: "nat \<Rightarrow> nat \<Rightarrow> complex"
  assumes LW: "\<And>f. (\<Sum>l<W. (\<Sum>c<W. f c * A l c) * twiddle W l m) = of_nat W * f m'"
    and LH: "\<And>f. (\<Sum>k<H. (\<Sum>r<H. f r * B k r) * twiddle H k n) = of_nat H * f n'"
  shows "(\<Sum>k<H. (\<Sum>l<W. (\<Sum>r<H. (\<Sum>c<W. g r c * A l c) * B k r) * twiddle W l m) * twiddle H k n)
           = of_nat H * of_nat W * g n' m'"
proof -
  have inner: "(\<Sum>l<W. (\<Sum>r<H. (\<Sum>c<W. g r c * A l c) * B k r) * twiddle W l m)
                 = (\<Sum>r<H. (of_nat W * g r m') * B k r)" for k
  proof -
    have "(\<Sum>l<W. (\<Sum>r<H. (\<Sum>c<W. g r c * A l c) * B k r) * twiddle W l m)
        = (\<Sum>l<W. \<Sum>r<H. ((\<Sum>c<W. g r c * A l c) * twiddle W l m) * B k r)"
      by (simp add: sum_distrib_right mult.assoc mult.commute [of "B k _"])
    also have "\<dots> = (\<Sum>r<H. \<Sum>l<W. ((\<Sum>c<W. g r c * A l c) * twiddle W l m) * B k r)"
      by (rule sum.swap)
    also have "\<dots> = (\<Sum>r<H. (\<Sum>l<W. (\<Sum>c<W. g r c * A l c) * twiddle W l m) * B k r)"
      by (simp add: sum_distrib_right)
    also have "\<dots> = (\<Sum>r<H. (of_nat W * g r m') * B k r)"
      by (simp only: LW)
    finally show ?thesis .
  qed
  have "(\<Sum>k<H. (\<Sum>l<W. (\<Sum>r<H. (\<Sum>c<W. g r c * A l c) * B k r) * twiddle W l m) * twiddle H k n)
      = (\<Sum>k<H. (\<Sum>r<H. (of_nat W * g r m') * B k r) * twiddle H k n)"
    by (simp only: inner)
  also have "\<dots> = of_nat H * (of_nat W * g n' m')"
    by (rule LH)
  finally show ?thesis by (simp add: mult.assoc)
qed

lemma of_real_Re_half: "complex_of_real (Re z) = (z + cnj z) / 2"
  by (simp add: complex_add_cnj)

lemma half_sum_split:
  fixes a b :: "nat \<Rightarrow> nat \<Rightarrow> complex"
  shows "(\<Sum>k<H. ((\<Sum>l<W. ((a k l + b k l) / 2) * t l) / w) * u k)
       = ((\<Sum>k<H. (\<Sum>l<W. a k l * t l) * u k) + (\<Sum>k<H. (\<Sum>l<W. b k l * t l) * u k)) / (2 * w)"
proof -
  have in1: "(\<Sum>l<W. ((a k l + b k l) / 2) * t l) = ((\<Sum>l<W. a k l * t l) + (\<Sum>l<W. b k l * t l)) / 2" for k
    by (simp add: sum.distrib sum_divide_distrib add_divide_distrib distrib_right)
  have in2: "(((\<Sum>l<W. a k l * t l) + (\<Sum>l<W. b k l * t l)) / 2 / w) * u k
      = ((\<Sum>l<W. a k l * t l) * u k + (\<Sum>l<W. b k l * t l) * u k) / (2 * w)" for k
    by (simp add: distrib_right)
  show ?thesis
    by (simp only: in1 in2 sum_divide_distrib [symmetric] sum.distrib)
qed

lemma re_dft2_inverse:
  fixes x :: "nat \<Rightarrow> nat \<Rightarrow> real"
  assumes "0 < H" "0 < W" "n < H" "m < W"
  shows "(\<Sum>k<H. ((\<Sum>l<W. complex_of_real (Re (\<Sum>r<H. (\<Sum>c<W. complex_of_real (x r c) * cnj (twiddle W l c))
                                   * cnj (twiddle H k r)))
                     * twiddle W l m) / of_nat W) * twiddle H k n) / of_nat H
         = complex_of_real ((x n m + x ((H - n) mod H) ((W - m) mod W)) / 2)"
proof -
  let ?F = "\<lambda>k l. \<Sum>r<H. (\<Sum>c<W. complex_of_real (x r c) * cnj (twiddle W l c)) * cnj (twiddle H k r)"
  let ?Fc = "\<lambda>k l. \<Sum>r<H. (\<Sum>c<W. complex_of_real (x r c) * twiddle W l c) * twiddle H k r"
  let ?g = "\<lambda>r c. complex_of_real (x r c)"
  have cF: "cnj (?F k l) = ?Fc k l" for k l
    by (simp add: cnj_sum)
  have P: "(\<Sum>k<H. (\<Sum>l<W. ?F k l * twiddle W l m) * twiddle H k n) = of_nat H * of_nat W * ?g n m"
    by (rule separable_inverse_2d [where A = "\<lambda>l c. cnj (twiddle W l c)" and B = "\<lambda>k r. cnj (twiddle H k r)"])
       (rule dft_inverse_1d [OF assms(2,4)], rule dft_inverse_1d [OF assms(1,3)])
  have Q: "(\<Sum>k<H. (\<Sum>l<W. ?Fc k l * twiddle W l m) * twiddle H k n)
             = of_nat H * of_nat W * ?g ((H - n) mod H) ((W - m) mod W)"
    by (rule separable_inverse_2d [where A = "\<lambda>l c. twiddle W l c" and B = "\<lambda>k r. twiddle H k r"])
       (rule dft_reflect_1d [OF assms(2,4)], rule dft_reflect_1d [OF assms(1,3)])
  define S where "S = (\<Sum>k<H. ((\<Sum>l<W. complex_of_real (Re (?F k l)) * twiddle W l m) / of_nat W) * twiddle H k n)"
  define ga gb where "ga = ?g n m" and "gb = ?g ((H - n) mod H) ((W - m) mod W)"
  have "S = ((\<Sum>k<H. (\<Sum>l<W. ?F k l * twiddle W l m) * twiddle H k n)
                + (\<Sum>k<H. (\<Sum>l<W. ?Fc k l * twiddle W l m) * twiddle H k n)) / (2 * of_nat W)"
    unfolding S_def by (simp only: of_real_Re_half cF half_sum_split)
  also have "\<dots> = (of_nat H * of_nat W * ga + of_nat H * of_nat W * gb) / (2 * of_nat W)"
    unfolding ga_def gb_def by (simp only: P Q)
  also have "\<dots> = ((of_nat H * (ga + gb)) * of_nat W) / (2 * of_nat W)"
    by (simp add: algebra_simps)
  also have "\<dots> = (of_nat H * (ga + gb)) / 2"
    using assms(2) by simp
  finally have "S / of_nat H = (ga + gb) / 2"
    using assms(1) by simp
  also have "\<dots> = complex_of_real ((x n m + x ((H - n) mod H) ((W - m) mod W)) / 2)"
    by (simp add: ga_def gb_def)
  finally show ?thesis unfolding S_def .
qed

subsection \<open>One real slot through the whole pipeline\<close>

lemma sum_list_upt: "(\<Sum>n\<leftarrow>[0..<N]. f n) = (\<Sum>n<N. f n)"
  by (simp add: interv_sum_list_conv_sum_set_nat atLeast0LessThan)

lemma fft2_tabulate:
  assumes "wf_nd x" "nrows x = H" "ncols x = W" "0 < H" "0 < W"
  shows "fft2 x = Inr (tabulate2 H W
           (\<lambda>k l. \<Sum>r<H. (\<Sum>c<W. complex_of_real (nd_at x r c) * cnj (twiddle W l c))
                            * cnj (twiddle H k r)))"
proof -
  let ?T1 = "tabulate2 H W (\<lambda>r l. \<Sum>c<W. complex_of_real (nd_at x r c) * cnj (twiddle W l c))"
  have "fft_last_axis (map_nd complex_of_real x) = Inr ?T1"
    using assms by (auto simp: fft_last_axis_def sum_list_upt intro!: tabulate2_cong sum.cong)
  moreover have "fft_first_axis ?T1 = Inr (tabulate2 H W
           (\<lambda>k l. \<Sum>r<H. (\<Sum>c<W. complex_of_real (nd_at x r c) * cnj (twiddle W l c))
                            * cnj (twiddle H k r)))"
    using assms(4) by (auto simp: fft_first_axis_def sum_list_upt intro!: tabulate2_cong sum.cong)
  ultimately show ?thesis by (simp add: fft2_def)
qed

lemma ifft2_tabulate:
  assumes "0 < H" "0 < W"
  shows "ifft2 (tabulate2 H W R) = Inr (tabulate2 H W
           (\<lambda>n m. (\<Sum>k<H. ((\<Sum>l<W. R k l * twiddle W l m) / of_nat W) * twiddle H k n) / of_nat H))"
proof -
  let ?T1 = "tabulate2 H W (\<lambda>k m. (\<Sum>l<W. R k l * twiddle W l m) / of_nat W)"
  have "ifft_last_axis (tabulate2 H W R) = Inr ?T1"
    using assms by (auto simp: ifft_last_axis_def sum_list_upt intro!: tabulate2_cong sum.cong)
  moreover have "ifft_first_axis ?T1 = Inr (tabulate2 H W
           (\<lambda>n m. (\<Sum>k<H. ((\<Sum>l<W. R k l * twiddle W l m) / of_nat W) * twiddle H k n) / of_nat H))"
    using assms by (auto simp: ifft_first_axis_def sum_list_upt intro!: tabulate2_cong sum.cong)
  ultimately show ?thesis by (simp add: ifft2_def)
qed

lemma shift_roundtrip:
  assumes "r < (N::nat)"
  shows "((r + N div 2) mod N + (N - N div 2)) mod N = r"
proof -
  have "((r + N div 2) mod N + (N - N div 2)) mod N = ((r + N div 2) + (N - N div 2)) mod N"
    by (rule mod_add_left_eq)
  also have "(r + N div 2) + (N - N div 2) = r + N" by simp
  finally show ?thesis using assms by simp
qed

lemma shift_roundtrip':
  assumes "r < (N::nat)"
  shows "((r + N div 2) mod N + N - N div 2) mod N = r"
proof -
  have "(r + N div 2) mod N + N - N div 2 = (r + N div 2) mod N + (N - N div 2)"
    by simp
  then show ?thesis using shift_roundtrip [OF assms] by simp
qed

lemma ifftshift_map_fftshift:
  assumes "nrows F = H" "ncols F = W" "0 < H" "0 < W"
  shows "ifftshift (tabulate2 H W (\<lambda>r c. g (nd_at (fftshift F) r c)))
           = tabulate2 H W (\<lambda>r c. g (nd_at F r c))"
  using assms
  by (auto simp: ifftshift_def fftshift_def Let_def shift_roundtrip' intro!: tabulate2_cong)

lemma add_component_real_unit:
  assumes "nrows masked = H" "ncols masked = W" "wf_nd masked"
  shows "add_component ''FT Real'' 1 masked (np_zeros H W)
           = Inr (tabulate2 H W (\<lambda>r c. complex_of_real (Re (nd_at masked r c))))"
  using assms
  by (auto simp: add_component_def Let_def iadd_nd_def intro!: tabulate2_cong)

lemma mix_slots_single:
  assumes "j < 4" "length images = 4" "\<forall>i<4. i \<noteq> j \<longrightarrow> images ! i = None"
    and "mix_slot lib self images weights component_selections G j c = Inr c'"
  shows "mix_slots lib self images weights component_selections G [0..<4] c = Inr c'"
proof -
  have sk: "mix_slot lib self images weights component_selections G i d = Inr d"
    if "i < 4" "i \<noteq> j" for i d
    using that assms(2,3) by (intro mix_slot_skipped) auto
  have l4: "[0..<4] = [0, 1, 2, 3]" by (simp add: upt_rec)
  from assms(1) consider "j = 0" | "j = 1" | "j = 2" | "j = 3" by linarith
  then show ?thesis
    by cases (use assms(4) in \<open>simp_all add: l4 sk\<close>)
qed

text \<open>
  The spectrum that one slot with selector \<open>FT Real\<close>, weight 1 and no masking hands to
  the inverse transform is the real part of what the forward transform returned.
\<close>

lemma real_slot_spectrum:
  assumes "lib_fft2 lib img = Inr F" "nrows F = H" "ncols F = W" "0 < H" "0 < W"
    and "j < length images" "images ! j = Some img"
    and "j < length weights" "weights ! j = 1"
    and "j < length component_selections" "component_selections ! j = ''FT Real''"
    and "region_mode self = ''None''"
  shows "\<exists>C. mix_slot lib self images weights component_selections G j (np_zeros H W) = Inr C
           \<and> ifftshift C = tabulate2 H W (\<lambda>k l. complex_of_real (Re (nd_at F k l)))"
proof -
  let ?C = "tabulate2 H W (\<lambda>r c. complex_of_real (Re (nd_at (fftshift F) r c)))"
  have "mix_slot lib self images weights component_selections G j (np_zeros H W) = Inr ?C"
    using assms
    by (simp add: mix_slot_def py_get_def apply_region_mask_def add_component_real_unit)
  moreover have "ifftshift ?C = tabulate2 H W (\<lambda>k l. complex_of_real (Re (nd_at F k l)))"
    by (rule ifftshift_map_fftshift [OF assms(2-5)])
  ultimately show ?thesis by blast
qed

text \<open>The exact inverse transform is linear and does not enlarge a uniform error.\<close>

lemma inverse_sum_diff:
  fixes A B :: "nat \<Rightarrow> nat \<Rightarrow> complex"
  shows "(\<Sum>k<H. ((\<Sum>l<W. A k l * t l) / w) * u k) / h - (\<Sum>k<H. ((\<Sum>l<W. B k l * t l) / w) * u k) / h
       = (\<Sum>k<H. ((\<Sum>l<W. (A k l - B k l) * t l) / w) * u k) / h"
  by (simp add: sum_subtractf left_diff_distrib diff_divide_distrib)

lemma inverse_sum_bound:
  fixes D :: "nat \<Rightarrow> nat \<Rightarrow> complex"
  assumes "0 < H" "0 < W" and D: "\<And>k l. k < H \<Longrightarrow> l < W \<Longrightarrow> cmod (D k l) \<le> eps"
    and t: "\<And>l. cmod (t l) = 1" and u: "\<And>k. cmod (u k) = 1"
  shows "cmod ((\<Sum>k<H. ((\<Sum>l<W. D k l * t l) / of_nat W) * u k) / of_nat H) \<le> eps"
proof -
  have inner: "cmod ((\<Sum>l<W. D k l * t l) / of_nat W) \<le> eps" if "k < H" for k
  proof -
    have "cmod (\<Sum>l<W. D k l * t l) \<le> (\<Sum>l<W. cmod (D k l * t l))"
      by (rule norm_sum)
    also have "\<dots> \<le> (\<Sum>l<W. eps)"
      by (rule sum_mono) (simp add: norm_mult t D that)
    also have "\<dots> = of_nat W * eps" by simp
    finally have "cmod (\<Sum>l<W. D k l * t l) \<le> of_nat W * eps" .
    then show ?thesis
      using assms(2) by (simp add: norm_divide divide_le_eq mult.commute)
  qed
  have "cmod (\<Sum>k<H. ((\<Sum>l<W. D k l * t l) / of_nat W) * u k)
      \<le> (\<Sum>k<H. cmod (((\<Sum>l<W. D k l * t l) / of_nat W) * u k))"
    by (rule norm_sum)
  also have "\<dots> \<le> (\<Sum>k<H. eps)"
  proof (rule sum_mono)
    fix k assume "k \<in> {..<H}"
    then have k: "k < H" by simp
    have "cmod (((\<Sum>l<W. D k l * t l) / of_nat W) * u k) = cmod ((\<Sum>l<W. D k l * t l) / of_nat W)"
      by (simp only: norm_mult u mult_1_right)
    with inner [OF k] show "cmod (((\<Sum>l<W. D k l * t l) / of_nat W) * u k) \<le> eps" by simp
  qed
  also have "\<dots> = of_nat H * eps" by simp
  finally have "cmod (\<Sum>k<H. ((\<Sum>l<W. D k l * t l) / of_nat W) * u k) \<le> of_nat H * eps" .
  then show ?thesis
    using assms(1) by (simp add: norm_divide divide_le_eq mult.commute)
qed

lemma cmod_twiddle [simp]: "cmod (twiddle N k n) = 1"
  by (simp add: twiddle_def)

lemma close_to_D:
  assumes "close_to eps a b"
  shows "nrows a = nrows b" "ncols a = ncols b"
    "\<And>r c. r < nrows b \<Longrightarrow> c < ncols b \<Longrightarrow> cmod (nd_at a r c - nd_at b r c) \<le> eps"
  using assms by (simp_all add: close_to_def)

lemma close_to_refl: "close_to 0 a a"
  by (simp add: close_to_def)

lemma real_slot_tolerance:
  assumes img: "wf_nd img" "nrows img = H" "ncols img = W" "0 < H" "0 < W"
    and fwd: "fft2 img = Inr F" "close_to eps1 F' F"
    and inv: "ifft2 (tabulate2 H W (\<lambda>k l. complex_of_real (Re (nd_at F' k l)))) = Inr Y"
      "close_to eps2 Y' Y"
    and rc: "r < H" "c < W"
  shows "cmod (nd_at Y' r c
               - complex_of_real ((nd_at img r c + nd_at img ((H - r) mod H) ((W - c) mod W)) / 2))
           \<le> eps1 + eps2"
proof -
  let ?Ff = "\<lambda>k l. \<Sum>r<H. (\<Sum>c<W. complex_of_real (nd_at img r c) * cnj (twiddle W l c))
                            * cnj (twiddle H k r)"
  let ?S = "\<lambda>R. (\<Sum>k<H. ((\<Sum>l<W. R k l * twiddle W l c) / of_nat W) * twiddle H k r) / of_nat H"
  let ?R' = "\<lambda>k l. complex_of_real (Re (nd_at F' k l))"
  let ?R = "\<lambda>k l. complex_of_real (Re (?Ff k l))"
  let ?e = "complex_of_real ((nd_at img r c + nd_at img ((H - r) mod H) ((W - c) mod W)) / 2)"
  have F: "F = tabulate2 H W ?Ff"
    using fwd(1) fft2_tabulate [OF img] by simp
  have Fs: "nrows F = H" "ncols F = W" by (simp_all add: F)
  have Y: "Y = tabulate2 H W (\<lambda>n m. (\<Sum>k<H. ((\<Sum>l<W. ?R' k l * twiddle W l m) / of_nat W)
                                       * twiddle H k n) / of_nat H)"
    using inv(1) ifft2_tabulate [OF img(4,5), of ?R'] by simp
  have Yat: "nd_at Y r c = ?S ?R'"
    using rc by (simp add: Y)
  have e: "?S ?R = ?e"
    by (rule re_dft2_inverse [OF img(4,5) rc])
  have D: "cmod (?R' k l - ?R k l) \<le> eps1" if "k < H" "l < W" for k l
  proof -
    have "cmod (nd_at F' k l - nd_at F k l) \<le> eps1"
      using close_to_D(3) [OF fwd(2)] that Fs by simp
    moreover have "nd_at F k l = ?Ff k l" using that by (simp add: F)
    moreover have "?R' k l - ?R k l = complex_of_real (Re (nd_at F' k l - ?Ff k l))"
      by simp
    moreover have "\<bar>Re (nd_at F' k l - ?Ff k l)\<bar> \<le> cmod (nd_at F' k l - ?Ff k l)"
      by (rule abs_Re_le_cmod)
    ultimately show ?thesis by (simp only: norm_of_real)
  qed
  have "?S ?R' - ?S ?R = ?S (\<lambda>k l. ?R' k l - ?R k l)"
    by (rule inverse_sum_diff)
  moreover have "cmod (?S (\<lambda>k l. ?R' k l - ?R k l)) \<le> eps1"
    by (rule inverse_sum_bound [OF img(4,5) D]) simp_all
  ultimately have b1: "cmod (nd_at Y r c - ?e) \<le> eps1"
    by (simp only: Yat e [symmetric])
  have Ys: "nrows Y = H" "ncols Y = W" by (simp_all add: Y)
  have b2: "cmod (nd_at Y' r c - nd_at Y r c) \<le> eps2"
    using close_to_D(3) [OF inv(2)] rc Ys by simp
  have "nd_at Y' r c - ?e = (nd_at Y' r c - nd_at Y r c) + (nd_at Y r c - ?e)" by simp
  then have "cmod (nd_at Y' r c - ?e) \<le> cmod (nd_at Y' r c - nd_at Y r c) + cmod (nd_at Y r c - ?e)"
    by (metis norm_triangle_ineq)
  with b1 b2 show ?thesis by linarith
qed

lemma real_slot_call:
  assumes shape: "nrows F' = H" "ncols F' = W" "0 < H" "0 < W"
    and fwd: "lib_fft2 lib img = Inr F'"
    and inv: "lib_ifft2 lib (tabulate2 H W (\<lambda>k l. complex_of_real (Re (nd_at F' k l)))) = Inr Y'"
    and slot: "j < 4" "length images = 4" "images ! j = Some img"
      "\<forall>i<4. i \<noteq> j \<longrightarrow> images ! i = None"
      "j < length weights" "weights ! j = 1"
      "j < length component_selections" "component_selections ! j = ''FT Real''"
    and call: "3 \<le> length selector_region" "(selector_region ! 2)\<^sup>2 < DBL_ROUNDS_TO_INF"
      "region_mode self = ''None''"
  shows "mix_images lib self images weights component_selections selector_region (Some H) (Some W)
           = Inr (normalize_uint8 (map_nd cmod Y'))"
proof -
  obtain G where G: "create_gaussian_mask H W (selector_region ! 2) = Inr G"
    using create_gaussian_mask_Inr [OF call(2)] by metis
  have jl: "j < length images" using slot(1,2) by simp
  from real_slot_spectrum [OF fwd shape jl slot(3) slot(5-8) call(3), of G]
  obtain C where C: "mix_slot lib self images weights component_selections G j (np_zeros H W) = Inr C"
    and X: "ifftshift C = tabulate2 H W (\<lambda>k l. complex_of_real (Re (nd_at F' k l)))"
    by blast
  have "mix_slots lib self images weights component_selections G [0..<4] (np_zeros H W) = Inr C"
    by (rule mix_slots_single [OF slot(1,2,4) C])
  moreover have "magnitude_image lib C = Inr (map_nd cmod Y')"
    by (simp add: magnitude_image_def X inv)
  ultimately show ?thesis
    using call(1) G by (simp add: mix_images_def py_get_def)
qed

lemma mix_images_real_slot_exact:
  assumes img: "wf_nd img" "nrows img = H" "ncols img = W" "0 < H" "0 < W"
    and slot: "j < 4" "length images = 4" "images ! j = Some img"
      "\<forall>i<4. i \<noteq> j \<longrightarrow> images ! i = None"
      "j < length weights" "weights ! j = 1"
      "j < length component_selections" "component_selections ! j = ''FT Real''"
    and call: "3 \<le> length selector_region" "(selector_region ! 2)\<^sup>2 < DBL_ROUNDS_TO_INF"
      "region_mode self = ''None''"
  shows "mix_images exact_fft self images weights component_selections selector_region
           (Some H) (Some W)
         = Inr (normalize_uint8 (tabulate2 H W
             (\<lambda>r c. \<bar>(nd_at img r c + nd_at img ((H - r) mod H) ((W - c) mod W)) / 2\<bar>)))"
proof -
  let ?Ff = "\<lambda>k l. \<Sum>r<H. (\<Sum>c<W. complex_of_real (nd_at img r c) * cnj (twiddle W l c))
                            * cnj (twiddle H k r)"
  let ?F = "tabulate2 H W ?Ff"
  let ?X = "tabulate2 H W (\<lambda>k l. complex_of_real (Re (nd_at ?F k l)))"
  let ?E = "tabulate2 H W
             (\<lambda>r c. \<bar>(nd_at img r c + nd_at img ((H - r) mod H) ((W - c) mod W)) / 2\<bar>)"
  have F: "fft2 img = Inr ?F" by (rule fft2_tabulate [OF img])
  obtain Y where Y: "ifft2 ?X = Inr Y" and Ys: "wf_nd Y" "nrows Y = H" "ncols Y = W"
    using ifft2_tabulate [OF img(4,5)] by simp
  have at: "nd_at Y r c
      = complex_of_real ((nd_at img r c + nd_at img ((H - r) mod H) ((W - c) mod W)) / 2)"
    if "r < H" "c < W" for r c
    using real_slot_tolerance [OF img F close_to_refl Y close_to_refl that] by simp
  have "map_nd cmod Y = ?E"
  proof (rule nd_eqI)
    show "wf_nd (map_nd cmod Y)" "wf_nd ?E" "nrows (map_nd cmod Y) = nrows ?E"
      "ncols (map_nd cmod Y) = ncols ?E"
      using Ys by simp_all
  next
    fix r c assume "r < nrows (map_nd cmod Y)" "c < ncols (map_nd cmod Y)"
    then have rc: "r < H" "c < W" using Ys by simp_all
    then show "nd_at (map_nd cmod Y) r c = nd_at ?E r c"
      using Ys by (simp add: at del: of_real_divide of_real_add)
  qed
  moreover have "mix_images exact_fft self images weights component_selections selector_region
           (Some H) (Some W) = Inr (normalize_uint8 (map_nd cmod Y))"
    by (rule real_slot_call [OF _ _ img(4,5) _ _ slot call, where F' = ?F])
       (simp_all add: exact_fft_def F Y)
  ultimately show ?thesis by simp
qed

subsection \<open>Unfolding for concrete calls\<close>

lemmas mix_eval =
  mix_images_def py_get_def mix_slot_def np_zeros_def tabulate2_def fft2_def fft_last_axis_def
  fft_first_axis_def map_nd_def create_gaussian_mask_def arange_minus_def meshgrid_def
  map2_nd_def apply_region_mask_def mul_mask_def broadcast2_def bc_dim_def mixer_init_def
  fftshift_def add_component_def iadd_nd_def nd_at_def bc_at_def bc_index_def twiddle_def upt_rec
  magnitude_image_def ifftshift_def ifft2_def ifft_last_axis_def ifft_first_axis_def
  exact_fft_def py_float_sq_def DBL_ROUNDS_TO_INF_def wf_nd_def

lemmas normalize_eval =
  normalize_uint8_def cv_normalize_minmax_def nd_min_def nd_max_def DBL_EPSILON_def
  astype_uint8_def map_nd_def fl_minus

lemma fl_max_7_idem: "fl (8972014882652159 / 35184372088832) = 8972014882652159 / 35184372088832"
  using fl_eval [of "8972014882652159 / 35184372088832" 7] by (simp add: round_even_def powr_neg_numeral)

lemma fl_10: "fl 10 = 10"
  using fl_eval [of 10 3] by (simp add: round_even_def powr_neg_numeral)

lemma fl_tenth: "fl (1 / 10) = 3602879701896397 / 36028797018963968"
  using fl_eval [of "1 / 10" "- 4"] by (simp add: round_even_def powr_neg_numeral)

lemma fl_scale_10: "fl (918734323983581235 / 36028797018963968) = 51 / 2"
  using fl_eval [of "918734323983581235 / 36028797018963968" 4] by (simp add: round_even_def powr_neg_numeral)

lemma fl_510: "fl 510 = 510"
  using fl_eval [of 510 8] by (simp add: round_even_def powr_neg_numeral)

lemma fl_2: "fl 2 = 2"
  using fl_eval [of 2 1] by (simp add: round_even_def powr_neg_numeral)

lemma fl_half: "fl (1 / 2) = 1 / 2"
  using fl_eval [of "1 / 2" "- 1"] by (simp add: round_even_def powr_neg_numeral)

lemma fl_255_half: "fl (255 / 2) = 255 / 2"
  using fl_eval [of "255 / 2" 6] by (simp add: round_even_def powr_neg_numeral)

lemma fl_765_half: "fl (765 / 2) = 765 / 2"
  using fl_eval [of "765 / 2" 8] by (simp add: round_even_def powr_neg_numeral)

lemma fl_2_255: "fl (2 / 255) = 282578800148737 / 36028797018963968"
  using fl_eval [of "2 / 255" "- 7"] by (simp add: round_even_def powr_neg_numeral)

lemma fl_scale_255_half: "fl (72057594037927935 / 36028797018963968) = 2"
  using fl_eval [of "72057594037927935 / 36028797018963968" 0] by (simp add: round_even_def powr_neg_numeral)

lemmas fl_values =
  fl_7 fl_255 fl_seventh fl_scale_7 fl_max_7 fl_max_7_idem fl_10 fl_tenth fl_scale_10
  fl_510 fl_2 fl_half fl_255_half fl_765_half fl_2_255 fl_scale_255_half

section \<open>Claims\<close>

text \<open>
  Claim C1, as amended. The source computes \<^verbatim>\<open>float(sigma) ** 2\<close>, which raises
  \<^verbatim>\<open>OverflowError\<close> when the square rounds to infinity, that is when
  \<open>sigma\<^sup>2\<close> reaches \<open>2 ^ 1024 - 2 ^ 970\<close> (a magnitude of \<open>sigma\<close> of about 1.34e154).
  For every height \<open>H\<close>, width \<open>W\<close> and \<open>sigma\<close> below that bound (zero and negative
  values included) the mask has shape \<open>H\<close> by \<open>W\<close>, its entry at row \<open>y\<close> and column \<open>x\<close>
  is \<open>exp (- ((x - W div 2)\<^sup>2 + (y - H div 2)\<^sup>2) / (2 * (sigma\<^sup>2 + 1e-6)))\<close>, the divisor is
  positive, so no division by zero occurs, and every entry lies between 0 and 1, both
  included: the exact value is positive, and the double nearest to a value below the
  smallest double is 0. For \<open>sigma\<close> at or above the bound no mask is built and the
  error is raised. The mask is a function of \<open>H\<close>, \<open>W\<close> and \<open>sigma\<close> alone.
\<close>

theorem create_gaussian_mask_formula:
  "(sigma\<^sup>2 < DBL_ROUNDS_TO_INF \<longrightarrow>
      (\<exists>M. create_gaussian_mask H W sigma = Inr M
         \<and> nrows M = H \<and> ncols M = W \<and> wf_nd M
         \<and> 0 < 2 * (sigma\<^sup>2 + 1 / 1000000)
         \<and> (\<forall>y<H. \<forall>x<W.
              nd_at M y x =
                exp (- real_of_int ((int x - int (W div 2))\<^sup>2 + (int y - int (H div 2))\<^sup>2)
                       / (2 * (sigma\<^sup>2 + 1 / 1000000)))
              \<and> 0 \<le> nd_at M y x \<and> nd_at M y x \<le> 1)))
   \<and> (DBL_ROUNDS_TO_INF \<le> sigma\<^sup>2 \<longrightarrow> create_gaussian_mask H W sigma = Inl OverflowError)"
proof (intro conjI impI)
  assume "DBL_ROUNDS_TO_INF \<le> sigma\<^sup>2"
  then show "create_gaussian_mask H W sigma = Inl OverflowError"
    by (rule create_gaussian_mask_overflow)
next
  assume small: "sigma\<^sup>2 < DBL_ROUNDS_TO_INF"
  have pos: "0 < 2 * (sigma\<^sup>2 + 1 / 1000000)"
    by (simp add: add_nonneg_pos)
  show "\<exists>M. create_gaussian_mask H W sigma = Inr M
         \<and> nrows M = H \<and> ncols M = W \<and> wf_nd M
         \<and> 0 < 2 * (sigma\<^sup>2 + 1 / 1000000)
         \<and> (\<forall>y<H. \<forall>x<W.
              nd_at M y x =
                exp (- real_of_int ((int x - int (W div 2))\<^sup>2 + (int y - int (H div 2))\<^sup>2)
                       / (2 * (sigma\<^sup>2 + 1 / 1000000)))
              \<and> 0 \<le> nd_at M y x \<and> nd_at M y x \<le> 1)"
  proof (rule create_gaussian_mask_Inr [OF small, of H W])
    fix M
    assume M: "create_gaussian_mask H W sigma = Inr M" "nrows M = H" "ncols M = W" "wf_nd M"
      and at: "\<And>y x. y < H \<Longrightarrow> x < W \<Longrightarrow> nd_at M y x =
         exp (- real_of_int ((int x - int (W div 2))\<^sup>2 + (int y - int (H div 2))\<^sup>2)
                / (2 * (sigma\<^sup>2 + 1 / 1000000)))"
    have "nd_at M y x \<le> 1" if "y < H" "x < W" for y x
    proof -
      have "0 \<le> real_of_int ((int x - int (W div 2))\<^sup>2 + (int y - int (H div 2))\<^sup>2)"
        by simp
      then have "- real_of_int ((int x - int (W div 2))\<^sup>2 + (int y - int (H div 2))\<^sup>2)
              / (2 * (sigma\<^sup>2 + 1 / 1000000)) \<le> 0"
        using pos by (simp add: divide_nonpos_pos)
      then show ?thesis
        by (simp only: at [OF that] exp_le_one_iff)
    qed
    moreover have "0 \<le> nd_at M y x" if "y < H" "x < W" for y x
      by (simp only: at [OF that] exp_ge_zero)
    ultimately show ?thesis
      using M pos at by blast
  qed
qed

text \<open>
  An instance: the centre of a 3 by 4 mask with \<open>sigma = 0\<close>, a corner with \<open>sigma = -2\<close>,
  and the error for \<open>sigma = 2 ^ 512\<close>.
\<close>

theorem create_gaussian_mask_witness:
  "(\<exists>M. create_gaussian_mask 3 4 0 = Inr M \<and> nd_at M 1 2 = 1)
   \<and> (\<exists>M. create_gaussian_mask 3 4 (- 2) = Inr M
          \<and> nd_at M 0 0 = exp (- 5 / (2 * (4 + 1 / 1000000))))
   \<and> create_gaussian_mask 3 4 (2 ^ 512) = Inl OverflowError"
proof -
  have a: "(0::real)\<^sup>2 < DBL_ROUNDS_TO_INF" "(- 2::real)\<^sup>2 < DBL_ROUNDS_TO_INF"
    "DBL_ROUNDS_TO_INF \<le> (2 ^ 512 :: real)\<^sup>2"
    by (simp_all add: DBL_ROUNDS_TO_INF_def)
  from create_gaussian_mask_formula [where sigma = 0 and H = 3 and W = 4] a(1)
  obtain M0 where M0: "create_gaussian_mask 3 4 0 = Inr M0"
    "\<forall>y<3. \<forall>x<4. nd_at M0 y x =
        exp (- real_of_int ((int x - int (4 div 2))\<^sup>2 + (int y - int (3 div 2))\<^sup>2)
               / (2 * (0\<^sup>2 + 1 / 1000000)))
        \<and> 0 \<le> nd_at M0 y x \<and> nd_at M0 y x \<le> 1"
    by blast
  from create_gaussian_mask_formula [where sigma = "- 2" and H = 3 and W = 4] a(2)
  obtain M2 where M2: "create_gaussian_mask 3 4 (- 2) = Inr M2"
    "\<forall>y<3. \<forall>x<4. nd_at M2 y x =
        exp (- real_of_int ((int x - int (4 div 2))\<^sup>2 + (int y - int (3 div 2))\<^sup>2)
               / (2 * ((- 2)\<^sup>2 + 1 / 1000000)))
        \<and> 0 \<le> nd_at M2 y x \<and> nd_at M2 y x \<le> 1"
    by blast
  have "nd_at M0 1 2 = 1" using M0(2) by simp
  moreover have "nd_at M2 0 0 = exp (- 5 / (2 * (4 + 1 / 1000000)))" using M2(2) by simp
  moreover have "create_gaussian_mask 3 4 (2 ^ 512) = Inl OverflowError"
    using create_gaussian_mask_formula [where sigma = "2 ^ 512" and H = 3 and W = 4] a(3)
    by blast
  ultimately show ?thesis using M0(1) M2(1) by blast
qed

text \<open>
  The claim as stated fails for a finite \<open>sigma\<close> whose square overflows: with
  \<open>sigma = 2 ^ 700\<close> the call raises \<^verbatim>\<open>OverflowError\<close> and builds no mask.
\<close>

theorem create_gaussian_mask_overflows:
  "create_gaussian_mask 3 4 (2 ^ 700) = Inl OverflowError"
  by (rule create_gaussian_mask_overflow) (simp add: DBL_ROUNDS_TO_INF_def)

text \<open>
  Claim C2, as amended. Let the transforms keep the shape of their argument. Whenever
  \<open>mix_images\<close> with target dimensions \<open>H\<close> and \<open>W\<close> returns an image, that image is
  computed from the magnitude of the inverse transform of the accumulated spectrum; it has
  shape \<open>H\<close> by \<open>W\<close> and 8-bit unsigned pixels, so every pixel lies between 0 and 255.
  With \<open>lo\<close> and \<open>hi\<close> the least and the greatest magnitude, both attained, the pixel of
  a magnitude \<open>v\<close> is \<open>v * scale + shift\<close> computed in double precision with its fraction cut
  off, where \<open>scale = 255 * (1 / (hi - lo))\<close> when \<open>hi - lo\<close> exceeds \<^verbatim>\<open>DBL_EPSILON\<close>
  and 0 otherwise, and \<open>shift = 0 - lo * scale\<close>. The least magnitude maps to 0. When the
  range does not exceed \<^verbatim>\<open>DBL_EPSILON\<close> every pixel is 0. Nothing makes the greatest
  magnitude map to 255.
\<close>

theorem mix_images_output_normalized:
  assumes "transforms_keep_shape lib"
    and "mix_images lib self images weights component_selections selector_region (Some H) (Some W)
           = Inr out"
  shows "\<exists>gaussian_mask combined_ft mixed_image.
       create_gaussian_mask H W (selector_region ! 2) = Inr gaussian_mask
     \<and> mix_slots lib self images weights component_selections gaussian_mask [0..<4] (np_zeros H W)
         = Inr combined_ft
     \<and> magnitude_image lib combined_ft = Inr mixed_image
     \<and> nrows mixed_image = H \<and> ncols mixed_image = W
     \<and> out = normalize_uint8 mixed_image
     \<and> nrows out = H \<and> ncols out = W \<and> wf_nd out
     \<and> (\<exists>r<H. \<exists>c<W. nd_at mixed_image r c = nd_min mixed_image \<and> nd_at out r c = 0)
     \<and> (\<exists>r<H. \<exists>c<W. nd_at mixed_image r c = nd_max mixed_image)
     \<and> (\<forall>r<H. \<forall>c<W.
          nd_min mixed_image \<le> nd_at mixed_image r c
          \<and> nd_at mixed_image r c \<le> nd_max mixed_image
          \<and> nd_at out r c =
              astype_uint8
                (fl (fl (nd_at mixed_image r c
                         * fl (fl 255 * (if fl (nd_max mixed_image - nd_min mixed_image) > DBL_EPSILON
                                         then fl (1 / fl (nd_max mixed_image - nd_min mixed_image))
                                         else 0)))
                     + fl (0 - fl (nd_min mixed_image
                         * fl (fl 255 * (if fl (nd_max mixed_image - nd_min mixed_image) > DBL_EPSILON
                                         then fl (1 / fl (nd_max mixed_image - nd_min mixed_image))
                                         else 0))))))
          \<and> (nd_at mixed_image r c = nd_min mixed_image \<longrightarrow> nd_at out r c = 0)
          \<and> (\<not> fl (nd_max mixed_image - nd_min mixed_image) > DBL_EPSILON \<longrightarrow> nd_at out r c = 0)
          \<and> 0 \<le> uint (nd_at out r c) \<and> uint (nd_at out r c) \<le> 255)"
proof -
  from assms(2) obtain gaussian_mask combined_ft mixed_image where
    mask: "create_gaussian_mask H W (selector_region ! 2) = Inr gaussian_mask"
    and slots: "mix_slots lib self images weights component_selections gaussian_mask [0..<4]
       (np_zeros H W) = Inr combined_ft"
    and mag: "magnitude_image lib combined_ft = Inr mixed_image"
    and out: "out = normalize_uint8 mixed_image"
    by (rule mix_images_Inr_D)
  let ?m = mixed_image
  have cshape: "nrows combined_ft = H" "ncols combined_ft = W"
    using mix_slots_shape [OF slots] by simp_all
  have mshape: "nrows ?m = H" "ncols ?m = W" "wf_nd ?m" "0 < H" "0 < W"
    using magnitude_image_shape [OF assms(1) mag] cshape by simp_all
  have pos: "0 < nrows ?m" "0 < ncols ?m" using mshape by simp_all
  obtain r0 c0 where lo: "r0 < H" "c0 < W" "nd_at ?m r0 c0 = nd_min ?m"
    using nd_min_attained [OF mshape(3) pos] mshape(1,2) by auto
  have "nd_at out r0 c0 = 0"
    unfolding out using lo mshape(1,2) by (intro normalize_uint8_at_min [OF mshape(3)]) simp_all
  with lo have lo_att: "\<exists>r<H. \<exists>c<W. nd_at ?m r c = nd_min ?m \<and> nd_at out r c = 0"
    by blast
  have hi_att: "\<exists>r<H. \<exists>c<W. nd_at ?m r c = nd_max ?m"
    using nd_max_attained [OF mshape(3) pos] mshape(1,2) by auto
  have pix: "nd_min ?m \<le> nd_at ?m r c
          \<and> nd_at ?m r c \<le> nd_max ?m
          \<and> nd_at out r c =
              astype_uint8
                (fl (fl (nd_at ?m r c
                         * fl (fl 255 * (if fl (nd_max ?m - nd_min ?m) > DBL_EPSILON
                                         then fl (1 / fl (nd_max ?m - nd_min ?m))
                                         else 0)))
                     + fl (0 - fl (nd_min ?m
                         * fl (fl 255 * (if fl (nd_max ?m - nd_min ?m) > DBL_EPSILON
                                         then fl (1 / fl (nd_max ?m - nd_min ?m))
                                         else 0))))))
          \<and> (nd_at ?m r c = nd_min ?m \<longrightarrow> nd_at out r c = 0)
          \<and> (\<not> fl (nd_max ?m - nd_min ?m) > DBL_EPSILON \<longrightarrow> nd_at out r c = 0)
          \<and> 0 \<le> uint (nd_at out r c) \<and> uint (nd_at out r c) \<le> 255"
    if rc: "r < H" "c < W" for r c
  proof -
    have r': "r < nrows ?m" and c': "c < ncols ?m" using rc mshape by simp_all
    have le: "nd_min ?m \<le> nd_at ?m r c" "nd_at ?m r c \<le> nd_max ?m"
      using nd_min_le [OF mshape(3) pos r' c'] nd_max_ge [OF mshape(3) pos r' c'] by simp_all
    have px: "nd_at out r c =
              astype_uint8
                (fl (fl (nd_at ?m r c
                         * fl (fl 255 * (if fl (nd_max ?m - nd_min ?m) > DBL_EPSILON
                                         then fl (1 / fl (nd_max ?m - nd_min ?m))
                                         else 0)))
                     + fl (0 - fl (nd_min ?m
                         * fl (fl 255 * (if fl (nd_max ?m - nd_min ?m) > DBL_EPSILON
                                         then fl (1 / fl (nd_max ?m - nd_min ?m))
                                         else 0))))))"
      unfolding out by (rule nd_at_normalize_uint8 [OF mshape(3) r' c'])
    have z: "nd_at out r c = 0" if "nd_at ?m r c = nd_min ?m"
      unfolding out by (rule normalize_uint8_at_min [OF mshape(3) r' c' that])
    have d: "nd_at out r c = 0" if "\<not> fl (nd_max ?m - nd_min ?m) > DBL_EPSILON"
      unfolding out by (rule normalize_uint8_degenerate [OF mshape(3) r' c' that])
    have u: "0 \<le> uint (nd_at out r c)" "uint (nd_at out r c) \<le> 255"
      unfolding px by (rule astype_uint8_range)+
    from le px z d u show ?thesis by blast
  qed
  have oshape: "nrows out = H" "ncols out = W" "wf_nd out"
    using mshape out by simp_all
  from mask slots mag mshape(1,2) out oshape lo_att hi_att pix show ?thesis by blast
qed

text \<open>
  An instance, with the exact transforms: the 1 by 2 image with the values 10 and 20 in
  slot 0, selector \<open>FT Real\<close>, weight 1, no masking. The magnitudes 10 and 20 are mapped to
  the pixels 0 and 255.
\<close>

theorem mix_images_output_normalized_witness:
  "mix_images exact_fft mixer_init [Some (NDArray 1 2 [[10, 20]]), None, None, None] [1, 0, 0, 0]
      [''FT Real'', ''FT Real'', ''FT Real'', ''FT Real''] [0, 0, 1, 0] (Some 1) (Some 2)
     = Inr (NDArray 1 2 [[0, 255]])
   \<and> (\<exists>mixed_image. nrows mixed_image = 1 \<and> ncols mixed_image = 2
        \<and> NDArray 1 2 [[0, 255]] = normalize_uint8 mixed_image
        \<and> (\<exists>r<1. \<exists>c<2. nd_at mixed_image r c = nd_min mixed_image
              \<and> nd_at (NDArray 1 2 [[0, 255 :: 8 word]]) r c = 0))"
proof -
  have "mix_images exact_fft mixer_init [Some (NDArray 1 2 [[10, 20]]), None, None, None]
      [1, 0, 0, 0] [''FT Real'', ''FT Real'', ''FT Real'', ''FT Real''] [0, 0, 1, 0]
      (Some 1) (Some 2) = Inr (normalize_uint8 (NDArray 1 2 [[10, 20]]))"
    by (simp add: mix_eval)
  moreover have "normalize_uint8 (NDArray 1 2 [[10, 20]]) = NDArray 1 2 [[0, 255]]"
    by (simp add: normalize_eval fl_values)
  ultimately have run: "mix_images exact_fft mixer_init
      [Some (NDArray 1 2 [[10, 20]]), None, None, None] [1, 0, 0, 0]
      [''FT Real'', ''FT Real'', ''FT Real'', ''FT Real''] [0, 0, 1, 0] (Some 1) (Some 2)
     = Inr (NDArray 1 2 [[0, 255]])"
    by simp
  from mix_images_output_normalized [OF exact_fft_keeps_shape run] show ?thesis
    using run by blast
qed

text \<open>
  The claim as stated fails for the greatest magnitude: for the 1 by 2 image with the
  values 7 and 0 the magnitude image has the values 7 and 0, the scale
  \<open>255 * (1 / 7)\<close> is rounded below \<open>255 / 7\<close>, the product with 7 is rounded to the
  double just below 255, and cutting off the fraction leaves 254.
\<close>

theorem greatest_magnitude_maps_to_254:
  "magnitude_image exact_fft (NDArray 1 2 [[7, 7]]) = Inr (NDArray 1 2 [[7, 0]])
   \<and> nd_max (NDArray 1 2 [[7, 0]]) = 7
   \<and> normalize_uint8 (NDArray 1 2 [[7, 0]]) = NDArray 1 2 [[254, 0]]
   \<and> mix_images exact_fft mixer_init [Some (NDArray 1 2 [[7, 0]]), None, None, None] [1, 0, 0, 0]
      [''FT Real'', ''FT Real'', ''FT Real'', ''FT Real''] [0, 0, 1, 0] (Some 1) (Some 2)
     = Inr (NDArray 1 2 [[254, 0]])
   \<and> (254 :: 8 word) \<noteq> 255"
proof -
  have "magnitude_image exact_fft (NDArray 1 2 [[7, 7]]) = Inr (NDArray 1 2 [[7, 0]])"
    by (simp add: mix_eval)
  moreover have "nd_max (NDArray 1 2 [[7, 0]]) = 7"
    by (simp add: nd_max_def)
  moreover have n: "normalize_uint8 (NDArray 1 2 [[7, 0]]) = NDArray 1 2 [[254, 0]]"
    by (simp add: normalize_eval fl_values)
  moreover have "mix_images exact_fft mixer_init [Some (NDArray 1 2 [[7, 0]]), None, None, None]
      [1, 0, 0, 0] [''FT Real'', ''FT Real'', ''FT Real'', ''FT Real''] [0, 0, 1, 0]
      (Some 1) (Some 2) = Inr (normalize_uint8 (NDArray 1 2 [[7, 0]]))"
    by (simp add: mix_eval)
  ultimately show ?thesis by simp
qed

text \<open>
  Claim C3. When the target height or the target width is absent, \<open>mix_images\<close> returns
  (it raises nothing) the 100 by 100 array of 8-bit zeros, whatever the object (so for every
  region mode), whatever the transforms and whatever the other arguments.
\<close>

theorem mix_images_placeholder:
  "mix_images lib self images weights component_selections selector_region None min_width
     = Inr (NDArray 100 100 (replicate 100 (replicate 100 0)))
   \<and> mix_images lib self images weights component_selections selector_region min_height None
     = Inr (NDArray 100 100 (replicate 100 (replicate 100 0)))"
  by (simp add: mix_images_def np_zeros_def tabulate2_def map_replicate_const split: option.splits)

text \<open>
  Claim C4, as amended. For a call with four image slots and four weights in which every
  slot has an absent image or the weight 0, a region parameter that carries a sigma whose
  square does not overflow, positive target dimensions \<open>H\<close> and \<open>W\<close>, and an inverse
  transform that maps the all-zero spectrum to the all-zero array, \<open>mix_images\<close> returns
  the all-zero 8-bit image of shape \<open>H\<close> by \<open>W\<close>. The range of the all-zero magnitude
  image does not exceed \<^verbatim>\<open>DBL_EPSILON\<close>, so the normalisation takes the scale 0
  instead of dividing by the range, and maps the all-zero image to itself.
\<close>

theorem all_slots_skipped_gives_zero_image:
  assumes "length images = 4" "length weights = 4"
    and "\<forall>i<4. images ! i = None \<or> weights ! i = 0"
    and "3 \<le> length selector_region" "(selector_region ! 2)\<^sup>2 < DBL_ROUNDS_TO_INF"
    and "0 < H" "0 < W"
    and "lib_ifft2 lib (np_zeros H W) = Inr (np_zeros H W)"
  shows "mix_images lib self images weights component_selections selector_region (Some H) (Some W)
           = Inr (np_zeros H W)
       \<and> \<not> (fl (nd_max (np_zeros H W) - nd_min (np_zeros H W)) > DBL_EPSILON)
       \<and> cv_normalize_minmax 0 255 (np_zeros H W) = np_zeros H W"
proof -
  obtain G where G: "create_gaussian_mask H W (selector_region ! 2) = Inr G"
    using create_gaussian_mask_Inr [OF assms(5)] by metis
  have "mix_slots lib self images weights component_selections G [0..<4] (np_zeros H W)
        = Inr (np_zeros H W)"
    using assms(1-3) by (intro mix_slots_skipped) auto
  then have "mix_images lib self images weights component_selections selector_region
      (Some H) (Some W) = Inr (np_zeros H W)"
    using assms(4) G magnitude_image_zeros [OF assms(8)]
    by (simp add: mix_images_def py_get_def normalize_uint8_zeros)
  moreover have "cv_normalize_minmax 0 255 (np_zeros H W) = np_zeros H W"
    by (simp add: cv_normalize_minmax_def DBL_EPSILON_def map_nd_zeros)
  ultimately show ?thesis
    by (simp add: DBL_EPSILON_def)
qed

text \<open>
  An instance, with the exact transforms: two slots without an image and two with the
  weight 0, target shape 2 by 3.
\<close>

theorem all_slots_skipped_witness:
  "mix_images exact_fft mixer_init
      [None, Some (NDArray 1 1 [[9]]), None, Some (NDArray 2 2 [[1, 2], [3, 4]])]
      [1, 0, 1, 0] [''FT Real'', ''FT Phase'', ''FT Real'', ''FT Real''] [0, 0, 1] (Some 2) (Some 3)
     = Inr (NDArray 2 3 [[0, 0, 0], [0, 0, 0]])"
proof -
  have z: "lib_ifft2 exact_fft (np_zeros 2 3) = Inr (np_zeros 2 3)"
    by (simp add: exact_fft_def ifft2_zeros)
  have h: "length [None, Some (NDArray 1 1 [[9 :: real]]), None, Some (NDArray 2 2 [[1, 2], [3, 4]])] = 4"
    "length [1, 0, 1, 0 :: real] = 4"
    "\<forall>i<4. [None, Some (NDArray 1 1 [[9 :: real]]), None, Some (NDArray 2 2 [[1, 2], [3, 4]])] ! i = None
        \<or> [1, 0, 1, 0 :: real] ! i = 0"
    "3 \<le> length [0, 0, 1 :: real]" "([0, 0, 1 :: real] ! 2)\<^sup>2 < DBL_ROUNDS_TO_INF"
    "0 < (2 :: nat)" "0 < (3 :: nat)"
    by (simp_all add: DBL_ROUNDS_TO_INF_def nth_Cons' All_less_Suc eval_nat_numeral)
  from all_slots_skipped_gives_zero_image [OF h z, of mixer_init
      "[''FT Real'', ''FT Phase'', ''FT Real'', ''FT Real'']"]
  show ?thesis
    by (simp add: np_zeros_def tabulate2_def upt_rec)
qed

text \<open>
  The claim as stated fails where the call raises: with every slot absent and the target
  height 0 the inverse transform raises \<^verbatim>\<open>ValueError\<close>, and with a sigma of
  \<open>2 ^ 700\<close> building the mask raises \<^verbatim>\<open>OverflowError\<close>.
\<close>

theorem all_slots_skipped_can_raise:
  "mix_images exact_fft mixer_init [None, None, None, None] [0, 0, 0, 0]
      [''FT Real'', ''FT Real'', ''FT Real'', ''FT Real''] [0, 0, 1, 0] (Some 0) (Some 3)
     = Inl ValueError
   \<and> mix_images exact_fft mixer_init [None, None, None, None] [0, 0, 0, 0]
      [''FT Real'', ''FT Real'', ''FT Real'', ''FT Real''] [0, 0, 2 ^ 700, 0] (Some 2) (Some 3)
     = Inl OverflowError"
  by (simp add: mix_eval)

text \<open>
  Claim C5. For every sigma and all dimensions, either the square of sigma overflows and
  no mask is built, or for the Gaussian mask of these dimensions and every spectrum of the
  same dimensions, masking in mode Inner multiplies the spectrum elementwise by the
  Gaussian mask, masking in mode Outer multiplies it elementwise by 1 minus the same
  Gaussian mask, and mode None returns the spectrum unchanged.
\<close>

theorem outer_mask_is_complement:
  assumes "nrows F = H" "ncols F = W"
  shows "(DBL_ROUNDS_TO_INF \<le> sigma\<^sup>2 \<and> create_gaussian_mask H W sigma = Inl OverflowError)
       \<or> (sigma\<^sup>2 < DBL_ROUNDS_TO_INF
          \<and> (\<exists>G. create_gaussian_mask H W sigma = Inr G
               \<and> apply_region_mask (self\<lparr>region_mode := ''Inner''\<rparr>) F G
                   = Inr (tabulate2 H W (\<lambda>r c. nd_at F r c * complex_of_real (nd_at G r c)))
               \<and> apply_region_mask (self\<lparr>region_mode := ''Outer''\<rparr>) F G
                   = Inr (tabulate2 H W (\<lambda>r c. nd_at F r c * complex_of_real (1 - nd_at G r c)))
               \<and> apply_region_mask (self\<lparr>region_mode := ''None''\<rparr>) F G = Inr F))"
proof (cases "sigma\<^sup>2 < DBL_ROUNDS_TO_INF")
  case False
  then show ?thesis using create_gaussian_mask_overflow [of sigma H W] by simp
next
  case True
  then obtain G where G: "create_gaussian_mask H W sigma = Inr G"
    "nrows G = H" "ncols G = W" "wf_nd G"
    using create_gaussian_mask_Inr [of sigma H W] by metis
  have "apply_region_mask (self\<lparr>region_mode := ''Inner''\<rparr>) F G
          = Inr (tabulate2 H W (\<lambda>r c. nd_at F r c * complex_of_real (nd_at G r c)))"
    using assms G(2-4)
    by (auto simp: apply_region_mask_def mul_mask_def broadcast2_same_shape intro!: tabulate2_cong)
  moreover have "apply_region_mask (self\<lparr>region_mode := ''Outer''\<rparr>) F G
          = Inr (tabulate2 H W (\<lambda>r c. nd_at F r c * complex_of_real (1 - nd_at G r c)))"
    using assms G(2-4)
    by (auto simp: apply_region_mask_def mul_mask_def broadcast2_same_shape intro!: tabulate2_cong)
  moreover have "apply_region_mask (self\<lparr>region_mode := ''None''\<rparr>) F G = Inr F"
    by (simp add: apply_region_mask_def)
  ultimately show ?thesis using True G(1) by blast
qed

text \<open>An instance: a 1 by 2 spectrum in mode Outer with \<open>sigma = 0\<close>.\<close>

theorem outer_mask_is_complement_witness:
  "\<exists>G. create_gaussian_mask 1 2 0 = Inr G
     \<and> apply_region_mask (mixer_init\<lparr>region_mode := ''Outer''\<rparr>) (NDArray 1 2 [[3, \<i>]]) G
       = Inr (NDArray 1 2 [[3 * complex_of_real (1 - exp (- 500000)), 0]])"
proof -
  have s: "nrows (NDArray 1 2 [[3, \<i>]]) = 1" "ncols (NDArray 1 2 [[3, \<i>]]) = 2"
    by simp_all
  have g: "create_gaussian_mask 1 2 0 = Inr (NDArray 1 2 [[exp (- 500000), 1]])"
    by (simp add: mix_eval)
  from outer_mask_is_complement [OF s, of 0 mixer_init] g
  have "apply_region_mask (mixer_init\<lparr>region_mode := ''Outer''\<rparr>) (NDArray 1 2 [[3, \<i>]])
          (NDArray 1 2 [[exp (- 500000), 1]])
        = Inr (tabulate2 1 2 (\<lambda>r c. nd_at (NDArray 1 2 [[3, \<i>]]) r c
            * complex_of_real (1 - nd_at (NDArray 1 2 [[exp (- 500000), 1 :: real]]) r c)))"
    by auto
  then show ?thesis
    using g by (simp add: tabulate2_def upt_rec nd_at_def)
qed

text \<open>
  Claim C6. For every masked spectrum value \<open>z\<close> and every weight, the Magnitude
  contribution \<open>weight * |z| * exp (i * arg z)\<close> equals \<open>weight * z\<close>; hence accumulating with
  the selector \<open>FT Magnitude\<close> is the same as accumulating the masked spectrum scaled by the
  weight.
\<close>

theorem magnitude_selector_is_scaling:
  "complex_of_real (weight * cmod z) * exp (\<i> * complex_of_real (Arg z)) = complex_of_real weight * z
   \<and> add_component ''FT Magnitude'' weight ft_image_masked combined_ft
       = iadd_nd combined_ft (map_nd (\<lambda>z. complex_of_real weight * z) ft_image_masked)"
  by (simp only: polar_recombine add_component_def Let_def map2_nd_map_nd) simp

text \<open>
  Claim C7, as amended. Take a real-valued image of the target shape \<open>H\<close> by \<open>W\<close> (both
  positive), a call with region mode None in which exactly one slot carries the image, with
  weight 1 and selector \<open>FT Real\<close>, and the other three slots are absent, and a sigma
  whose square does not overflow. Let the forward transform return a spectrum within
  \<open>eps1\<close> of the exact one in every entry, and let the inverse transform, applied to the
  real part of that spectrum, return an array \<open>Y'\<close> within \<open>eps2\<close> of the exact inverse.
  Then the call returns the normalised image (as in claim C2) of the magnitude of \<open>Y'\<close>,
  and every entry of \<open>Y'\<close> is within \<open>eps1 + eps2\<close> of
  \<open>(img[r, c] + img[(H - r) mod H, (W - c) mod W]) / 2\<close>, the part of the image that is
  symmetric under reflection through the origin: dropping the imaginary part of the
  spectrum keeps only that part. The original image is not reproduced.
\<close>

theorem real_selector_single_slot:
  assumes "wf_nd img" "nrows img = H" "ncols img = W" "0 < H" "0 < W"
    and "j < 4" "length images = 4" "images ! j = Some img"
    and "\<forall>i<4. i \<noteq> j \<longrightarrow> images ! i = None"
    and "j < length weights" "weights ! j = 1"
    and "j < length component_selections" "component_selections ! j = ''FT Real''"
    and "3 \<le> length selector_region" "(selector_region ! 2)\<^sup>2 < DBL_ROUNDS_TO_INF"
    and "region_mode self = ''None''"
    and "lib_fft2 lib img = Inr F'" "fft2 img = Inr F" "close_to eps1 F' F"
    and "lib_ifft2 lib (tabulate2 H W (\<lambda>k l. complex_of_real (Re (nd_at F' k l)))) = Inr Y'"
    and "ifft2 (tabulate2 H W (\<lambda>k l. complex_of_real (Re (nd_at F' k l)))) = Inr Y"
    and "close_to eps2 Y' Y"
  shows "mix_images lib self images weights component_selections selector_region (Some H) (Some W)
           = Inr (normalize_uint8 (map_nd cmod Y'))
       \<and> (\<forall>r<H. \<forall>c<W.
            cmod (nd_at Y' r c
                  - complex_of_real
                      ((nd_at img r c + nd_at img ((H - r) mod H) ((W - c) mod W)) / 2))
              \<le> eps1 + eps2
            \<and> \<bar>cmod (nd_at Y' r c)
                - \<bar>(nd_at img r c + nd_at img ((H - r) mod H) ((W - c) mod W)) / 2\<bar>\<bar>
              \<le> eps1 + eps2)"
proof -
  have Fs: "nrows F = H" "ncols F = W"
    using assms(18) fft2_tabulate [OF assms(1-5)] by auto
  have F's: "nrows F' = H" "ncols F' = W"
    using close_to_D(1,2) [OF assms(19)] Fs by simp_all
  have run: "mix_images lib self images weights component_selections selector_region
      (Some H) (Some W) = Inr (normalize_uint8 (map_nd cmod Y'))"
    by (rule real_slot_call [OF F's assms(4,5) assms(17) assms(20) assms(6-16)])
  have b: "cmod (nd_at Y' r c
                  - complex_of_real
                      ((nd_at img r c + nd_at img ((H - r) mod H) ((W - c) mod W)) / 2))
              \<le> eps1 + eps2" if "r < H" "c < W" for r c
    by (rule real_slot_tolerance [OF assms(1-5) assms(18,19) assms(21,22) that])
  have "\<bar>cmod (nd_at Y' r c)
                - \<bar>(nd_at img r c + nd_at img ((H - r) mod H) ((W - c) mod W)) / 2\<bar>\<bar>
              \<le> eps1 + eps2" if "r < H" "c < W" for r c
  proof -
    let ?e = "(nd_at img r c + nd_at img ((H - r) mod H) ((W - c) mod W)) / 2"
    have "\<bar>cmod (nd_at Y' r c) - cmod (complex_of_real ?e)\<bar> \<le> cmod (nd_at Y' r c - complex_of_real ?e)"
      by (rule norm_triangle_ineq3)
    moreover have "cmod (complex_of_real ?e) = \<bar>?e\<bar>" by (rule norm_of_real)
    ultimately show ?thesis using b [OF that] by linarith
  qed
  with run b show ?thesis by blast
qed

text \<open>
  An instance, with the exact transforms and both tolerances 0: the 1 by 2 image with the
  values 3 and 1 in slot 2. It equals its reflection, the inverse transform returns it
  exactly, and the result is its normalisation, the pixels 255 and 0.
\<close>

theorem real_selector_single_slot_witness:
  "mix_images exact_fft mixer_init [None, None, Some (NDArray 1 2 [[3, 1]]), None] [0, 0, 1, 0]
      [''FT Phase'', ''FT Phase'', ''FT Real'', ''FT Phase''] [0, 0, 5] (Some 1) (Some 2)
     = Inr (NDArray 1 2 [[255, 0]])
   \<and> (\<exists>Y'. ifft2 (NDArray 1 2 [[4, 2]]) = Inr Y' \<and> nd_at Y' 0 0 = 3 \<and> nd_at Y' 0 1 = 1)"
proof -
  let ?img = "NDArray 1 2 [[3, 1 :: real]]"
  let ?F = "NDArray 1 2 [[4, 2 :: complex]]"
  let ?Y = "NDArray 1 2 [[3, 1 :: complex]]"
  have img: "wf_nd ?img" "nrows ?img = 1" "ncols ?img = 2" "0 < (1 :: nat)" "0 < (2 :: nat)"
    by (simp_all add: wf_nd_def)
  have call: "(2 :: nat) < 4" "length [None, None, Some ?img, None] = 4"
    "[None, None, Some ?img, None] ! 2 = Some ?img"
    "\<forall>i<4. i \<noteq> 2 \<longrightarrow> [None, None, Some ?img, None] ! i = None"
    "2 < length [0, 0, 1, 0 :: real]" "[0, 0, 1, 0 :: real] ! 2 = 1"
    "2 < length [''FT Phase'', ''FT Phase'', ''FT Real'', ''FT Phase'']"
    "[''FT Phase'', ''FT Phase'', ''FT Real'', ''FT Phase''] ! 2 = ''FT Real''"
    "3 \<le> length [0, 0, 5 :: real]" "([0, 0, 5 :: real] ! 2)\<^sup>2 < DBL_ROUNDS_TO_INF"
    "region_mode mixer_init = ''None''"
    by (simp_all add: mixer_init_def DBL_ROUNDS_TO_INF_def All_less_Suc eval_nat_numeral)
  have X: "tabulate2 1 2 (\<lambda>k l. complex_of_real (Re (nd_at ?F k l))) = ?F"
    by (simp add: tabulate2_def nd_at_def upt_rec)
  have fwd: "lib_fft2 exact_fft ?img = Inr ?F" "fft2 ?img = Inr ?F"
    by (simp_all add: mix_eval)
  have inv: "lib_ifft2 exact_fft (tabulate2 1 2 (\<lambda>k l. complex_of_real (Re (nd_at ?F k l)))) = Inr ?Y"
    "ifft2 (tabulate2 1 2 (\<lambda>k l. complex_of_real (Re (nd_at ?F k l)))) = Inr ?Y"
    unfolding X by (simp_all add: mix_eval)
  have norm: "normalize_uint8 (map_nd cmod ?Y) = NDArray 1 2 [[255, 0]]"
    by (simp add: normalize_eval fl_values)
  from real_selector_single_slot [OF img call fwd close_to_refl inv close_to_refl]
  have "mix_images exact_fft mixer_init [None, None, Some ?img, None] [0, 0, 1, 0]
      [''FT Phase'', ''FT Phase'', ''FT Real'', ''FT Phase''] [0, 0, 5] (Some 1) (Some 2)
     = Inr (normalize_uint8 (map_nd cmod ?Y))"
    by (rule conjunct1)
  moreover have "ifft2 ?F = Inr ?Y" using inv(2) by (simp only: X)
  ultimately show ?thesis
    using norm by (simp add: nd_at_def)
qed

text \<open>
  The claim as stated fails: the 1 by 3 image with the values 0, 255, 0 already spans the
  range from 0 to 255, and the call returns the pixels 0, 255, 255: the last pixel is 255
  where the image has 0.
\<close>

theorem real_selector_does_not_reproduce:
  "mix_images exact_fft mixer_init [Some (NDArray 1 3 [[0, 255, 0]]), None, None, None]
      [1, 0, 0, 0] [''FT Real'', ''FT Real'', ''FT Real'', ''FT Real''] [0, 0, 1, 0] (Some 1) (Some 3)
     = Inr (NDArray 1 3 [[0, 255, 255]])
   \<and> nd_at (NDArray 1 3 [[0, 255, 0 :: real]]) 0 2 = 0
   \<and> uint (nd_at (NDArray 1 3 [[0, 255, 255 :: 8 word]]) 0 2) = 255"
proof -
  have img: "wf_nd (NDArray 1 3 [[0, 255, 0 :: real]])" "nrows (NDArray 1 3 [[0, 255, 0 :: real]]) = 1"
    "ncols (NDArray 1 3 [[0, 255, 0 :: real]]) = 3" "0 < (1 :: nat)" "0 < (3 :: nat)"
    by (simp_all add: wf_nd_def)
  have call: "(0 :: nat) < 4" "length [Some (NDArray 1 3 [[0, 255, 0 :: real]]), None, None, None] = 4"
    "[Some (NDArray 1 3 [[0, 255, 0 :: real]]), None, None, None] ! 0 = Some (NDArray 1 3 [[0, 255, 0]])"
    "\<forall>i<4. i \<noteq> 0 \<longrightarrow> [Some (NDArray 1 3 [[0, 255, 0 :: real]]), None, None, None] ! i = None"
    "0 < length [1, 0, 0, 0 :: real]" "[1, 0, 0, 0 :: real] ! 0 = 1"
    "0 < length [''FT Real'', ''FT Real'', ''FT Real'', ''FT Real'']"
    "[''FT Real'', ''FT Real'', ''FT Real'', ''FT Real''] ! 0 = ''FT Real''"
    "3 \<le> length [0, 0, 1, 0 :: real]" "([0, 0, 1, 0 :: real] ! 2)\<^sup>2 < DBL_ROUNDS_TO_INF"
    "region_mode mixer_init = ''None''"
    by (simp_all add: mixer_init_def DBL_ROUNDS_TO_INF_def All_less_Suc eval_nat_numeral)
  have "tabulate2 1 3
               (\<lambda>r c. \<bar>(nd_at (NDArray 1 3 [[0, 255, 0 :: real]]) r c
                     + nd_at (NDArray 1 3 [[0, 255, 0]]) ((1 - r) mod 1) ((3 - c) mod 3)) / 2\<bar>)
        = NDArray 1 3 [[0, 255 / 2, 255 / 2]]"
    by (simp add: tabulate2_def nd_at_def upt_rec)
  moreover have "normalize_uint8 (NDArray 1 3 [[0, 255 / 2, 255 / 2]]) = NDArray 1 3 [[0, 255, 255]]"
    by (simp add: normalize_eval fl_values)
  ultimately show ?thesis
    using mix_images_real_slot_exact [OF img call] by (simp add: nd_at_def)
qed

text \<open>
  Claim C8. For every input string, \<open>set_region_mode\<close> stores \<open>Inner\<close> when the string
  contains \<open>Inner\<close>, otherwise \<open>Outer\<close> when it contains \<open>Outer\<close>, otherwise
  \<open>None\<close>, and changes nothing else of the object (the result is the object with only its
  region mode replaced). Containment is stated as the existence of a text before and a text
  after the word. The three texts of the specification give Outer, Inner and None.
\<close>

theorem set_region_mode_normalizes:
  "set_region_mode mode self =
     self\<lparr>region_mode :=
       (if (\<exists>ps ss. mode = ps @ ''Inner'' @ ss) then ''Inner''
        else if (\<exists>ps ss. mode = ps @ ''Outer'' @ ss) then ''Outer''
        else ''None'')\<rparr>
   \<and> region_mode (set_region_mode ''High-Frequency (Outer)'' self) = ''Outer''
   \<and> region_mode (set_region_mode ''Low (Inner) Region'' self) = ''Inner''
   \<and> region_mode (set_region_mode ''Off'' self) = ''None''"
proof -
  have "set_region_mode mode self =
     self\<lparr>region_mode :=
       (if (\<exists>ps ss. mode = ps @ ''Inner'' @ ss) then ''Inner''
        else if (\<exists>ps ss. mode = ps @ ''Outer'' @ ss) then ''Outer''
        else ''None'')\<rparr>"
    unfolding set_region_mode_def str_contains_iff by simp
  moreover have "region_mode (set_region_mode ''High-Frequency (Outer)'' self) = ''Outer''"
    by (simp add: set_region_mode_def prefix_def)
  moreover have "region_mode (set_region_mode ''Low (Inner) Region'' self) = ''Inner''"
    by (simp add: set_region_mode_def prefix_def)
  moreover have "region_mode (set_region_mode ''Off'' self) = ''None''"
    by (simp add: set_region_mode_def prefix_def)
  ultimately show ?thesis by blast
qed

text \<open>
  An instance: a text that contains both words gives Inner, and the widget references stay.
\<close>

theorem set_region_mode_witness:
  "set_region_mode ''Outer ring, not Inner'' (mixer_init\<lparr>output_label_1 := Some 7\<rparr>)
     = \<lparr>region_mode = ''Inner'', output_label_1 = Some 7, output_label_2 = None\<rparr>"
  using set_region_mode_normalizes [of "''Outer ring, not Inner''" "mixer_init\<lparr>output_label_1 := Some 7\<rparr>"]
  by (simp add: mixer_init_def set_region_mode_def prefix_def)

text \<open>
  Claim C9, as amended. \<open>mix_images\<close> does not compare the shape of an image with the
  target dimensions; only NumPy's broadcasting does. Take transforms that keep the shape
  of their argument and a well-formed call (four slots, valid selectors and region mode,
  non-empty images, a sigma whose square does not overflow, positive target dimensions
  \<open>H\<close> and \<open>W\<close>): when some active slot has an image with a dimension that is neither the
  target's nor 1, the call raises NumPy's \<^verbatim>\<open>ValueError\<close>; when every active image
  has each dimension equal to the target's or to 1, the call returns an image of shape
  \<open>H\<close> by \<open>W\<close>, also when a shape differs from the target, the image being stretched
  silently.
\<close>

theorem mix_images_shape_mismatch:
  assumes "transforms_keep_shape lib"
    and "slots_well_formed self images weights component_selections"
    and "3 \<le> length selector_region" "(selector_region ! 2)\<^sup>2 < DBL_ROUNDS_TO_INF"
    and "0 < H" "0 < W"
  shows "((\<exists>i<4. \<exists>img. images ! i = Some img \<and> weights ! i \<noteq> 0 \<and> \<not> broadcastable_to H W img)
           \<longrightarrow> mix_images lib self images weights component_selections selector_region
                 (Some H) (Some W) = Inl ValueError)
       \<and> ((\<forall>i<4. \<forall>img. images ! i = Some img \<longrightarrow> weights ! i \<noteq> 0 \<longrightarrow> broadcastable_to H W img)
           \<longrightarrow> (\<exists>out. mix_images lib self images weights component_selections selector_region
                         (Some H) (Some W) = Inr out
                     \<and> nrows out = H \<and> ncols out = W))"
proof (intro conjI impI)
  obtain G where G: "create_gaussian_mask H W (selector_region ! 2) = Inr G"
    "nrows G = H" "ncols G = W"
    using create_gaussian_mask_Inr [OF assms(4)] by metis
  have Gs: "nrows G = nrows (np_zeros H W :: complex ndarray)"
    "ncols G = ncols (np_zeros H W :: complex ndarray)" "wf_nd (np_zeros H W :: complex ndarray)"
    using G(2,3) by simp_all
  have idx: "set [0..<4] \<subseteq> {..<(4::nat)}" by auto
  have unfold: "mix_images lib self images weights component_selections selector_region
        (Some H) (Some W)
      = (case mix_slots lib self images weights component_selections G [0..<4] (np_zeros H W) of
           Inl e \<Rightarrow> Inl e
         | Inr combined_ft \<Rightarrow>
             (case magnitude_image lib combined_ft of
                Inl e \<Rightarrow> Inl e
              | Inr mixed_image \<Rightarrow> Inr (normalize_uint8 mixed_image)))"
    using assms(3) G(1) by (simp add: mix_images_def py_get_def)
  {
    assume "\<exists>i<4. \<exists>img. images ! i = Some img \<and> weights ! i \<noteq> 0 \<and> \<not> broadcastable_to H W img"
    then have "\<exists>i\<in>set [0..<4]. \<exists>img. images ! i = Some img \<and> weights ! i \<noteq> 0
        \<and> \<not> broadcastable_to (nrows (np_zeros H W :: complex ndarray))
              (ncols (np_zeros H W :: complex ndarray)) img"
      by (simp add: Bex_def)
    from mix_slots_not_broadcastable [OF assms(2,1) idx Gs this]
    have "mix_slots lib self images weights component_selections G [0..<4] (np_zeros H W)
            = Inl ValueError" .
    then show "mix_images lib self images weights component_selections selector_region
                 (Some H) (Some W) = Inl ValueError"
      by (simp add: unfold)
  }
  {
    assume "\<forall>i<4. \<forall>img. images ! i = Some img \<longrightarrow> weights ! i \<noteq> 0 \<longrightarrow> broadcastable_to H W img"
    then have "\<forall>i\<in>set [0..<4]. \<forall>img. images ! i = Some img \<longrightarrow> weights ! i \<noteq> 0 \<longrightarrow>
        broadcastable_to (nrows (np_zeros H W :: complex ndarray))
              (ncols (np_zeros H W :: complex ndarray)) img"
      by simp
    from mix_slots_all_broadcastable [OF assms(2,1) idx Gs this]
    obtain c where c: "mix_slots lib self images weights component_selections G [0..<4]
        (np_zeros H W) = Inr c" by auto
    from mix_slots_shape [OF c] have cs: "nrows c = H" "ncols c = W" by simp_all
    then obtain m where m: "magnitude_image lib c = Inr m"
      using magnitude_image_Inr [OF assms(1), of c] assms(5,6) by auto
    from magnitude_image_shape [OF assms(1) m] cs have "nrows m = H" "ncols m = W" by simp_all
    then show "\<exists>out. mix_images lib self images weights component_selections selector_region
                         (Some H) (Some W) = Inr out \<and> nrows out = H \<and> ncols out = W"
      using c m by (simp add: unfold)
  }
qed

text \<open>
  An instance, with the exact transforms: a 2 by 1 image in an active slot with the target
  shape 1 by 2 raises \<^verbatim>\<open>ValueError\<close>.
\<close>

theorem mix_images_shape_mismatch_witness:
  "mix_images exact_fft mixer_init [Some (NDArray 2 1 [[1], [2]]), None, None, None] [1, 0, 0, 0]
      [''FT Real'', ''FT Real'', ''FT Real'', ''FT Real''] [0, 0, 1] (Some 1) (Some 2)
     = Inl ValueError"
proof -
  have wf: "slots_well_formed mixer_init [Some (NDArray 2 1 [[1], [2]]), None, None, None]
      [1, 0, 0, 0] [''FT Real'', ''FT Real'', ''FT Real'', ''FT Real'']"
    by (simp add: slots_well_formed_def mixer_init_def wf_nd_def All_less_Suc eval_nat_numeral nth_Cons')
  have h: "3 \<le> length [0, 0, 1 :: real]" "([0, 0, 1 :: real] ! 2)\<^sup>2 < DBL_ROUNDS_TO_INF"
    "0 < (1 :: nat)" "0 < (2 :: nat)"
    by (simp_all add: DBL_ROUNDS_TO_INF_def)
  have bad: "\<exists>i<4. \<exists>img. [Some (NDArray 2 1 [[1], [2 :: real]]), None, None, None] ! i = Some img
      \<and> [1, 0, 0, 0 :: real] ! i \<noteq> 0 \<and> \<not> broadcastable_to 1 2 img"
    by (rule exI [of _ 0]) (simp add: broadcastable_to_def)
  from mix_images_shape_mismatch [OF exact_fft_keeps_shape wf h] bad show ?thesis
    by blast
qed

text \<open>
  The claim as stated fails for a shape that NumPy can stretch: an active 1 by 1 image with
  the target shape 1 by 2 raises nothing; its spectrum is broadcast over the composite
  spectrum and an image is returned.
\<close>

theorem mismatched_shape_is_broadcast:
  "(nrows (NDArray 1 1 [[7 :: real]]), ncols (NDArray 1 1 [[7 :: real]])) \<noteq> (1, 2)
   \<and> mix_images exact_fft mixer_init [Some (NDArray 1 1 [[7]]), None, None, None] [1, 0, 0, 0]
      [''FT Real'', ''FT Real'', ''FT Real'', ''FT Real''] [0, 0, 1] (Some 1) (Some 2)
     = Inr (NDArray 1 2 [[254, 0]])"
proof -
  have "mix_images exact_fft mixer_init [Some (NDArray 1 1 [[7]]), None, None, None] [1, 0, 0, 0]
      [''FT Real'', ''FT Real'', ''FT Real'', ''FT Real''] [0, 0, 1] (Some 1) (Some 2)
     = Inr (normalize_uint8 (NDArray 1 2 [[7, 0]]))"
    by (simp add: mix_eval)
  moreover have "normalize_uint8 (NDArray 1 2 [[7, 0]]) = NDArray 1 2 [[254, 0]]"
    by (simp add: normalize_eval fl_values)
  ultimately show ?thesis by simp
qed

text \<open>
  Claim C10. When the target height or the target width is absent, the result of
  \<open>mix_images\<close> does not depend on the object, the transforms, the images, the weights,
  the component selections or the region parameter: any two such calls return the same
  placeholder. In particular the call returns for empty lists of images, weights and
  selections and an empty region parameter, which with both dimensions present raise
  \<^verbatim>\<open>IndexError\<close>.
\<close>

theorem mix_images_no_dims_reads_nothing:
  "mix_images lib self images weights component_selections selector_region None min_width
     = mix_images lib' self' images' weights' component_selections' selector_region' None min_width'
   \<and> mix_images lib self images weights component_selections selector_region min_height None
     = mix_images lib' self' images' weights' component_selections' selector_region' min_height' None
   \<and> mix_images lib self [] [] [] [] None min_width = Inr (np_zeros 100 100)
   \<and> mix_images lib self [] [] [] [] min_height None = Inr (np_zeros 100 100)
   \<and> mix_images lib self [] [] [] [] (Some height) (Some width) = Inl IndexError"
  by (simp add: mix_images_def py_get_def split: option.splits)

end
